theory Spec2Isabelle
  imports Complex_Main "HOL-Library.Signed_Division" "HOL-Library.Log_Nat"
begin

section \<open>JavaScript values used by the library\<close>

text \<open>
  The library computes on \<^verbatim>\<open>bigint\<close> values: unbounded integers, modelled as \<^typ>\<open>int\<close>.
  On \<^verbatim>\<open>bigint\<close> the operator \<^verbatim>\<open>/\<close> truncates toward zero and \<^verbatim>\<open>%\<close> takes the sign of the
  dividend; both throw a \<^verbatim>\<open>RangeError\<close> on a zero divisor. These are \<open>sdiv\<close> and
  \<open>smod\<close> of the signed-division library, with the exception made a value.

  Ticks and decimals are JavaScript numbers in the source. Ticks are modelled as
  \<^typ>\<open>int\<close>, decimals as \<^typ>\<open>nat\<close>; token addresses are modelled by the number
  \<^verbatim>\<open>BigInt(address)\<close> they denote.

  The modules are named below by what they import and export: the liquidity module
  (its text follows the address utilities in \<^verbatim>\<open>utils/evm/address.ts\<close>), the fee module
  \<^verbatim>\<open>utils/uniswapv3/fees.ts\<close>, the position module (\<^verbatim>\<open>determinePhase\<close>, \<^verbatim>\<open>calculatePnL\<close>,
  \<^verbatim>\<open>generatePnLCurve\<close>) and the price module (\<^verbatim>\<open>priceToSqrtRatioX96\<close>, \<^verbatim>\<open>priceToTick\<close>).
\<close>

datatype error = Error string | RangeError string

definition bindE :: "error + 'a \<Rightarrow> ('a \<Rightarrow> error + 'b) \<Rightarrow> error + 'b" where
  "bindE m f = (case m of Inl e \<Rightarrow> Inl e | Inr v \<Rightarrow> f v)"

definition bigint_div :: "int \<Rightarrow> int \<Rightarrow> error + int" where
  "bigint_div a b = (if b = 0 then Inl (RangeError ''Division by zero'') else Inr (a sdiv b))"

definition bigint_mod :: "int \<Rightarrow> int \<Rightarrow> error + int" where
  "bigint_mod a b = (if b = 0 then Inl (RangeError ''Division by zero'') else Inr (a smod b))"

text \<open>constants.ts\<close>

definition Q96 :: int where "Q96 = 2 ^ 96"
definition Q128 :: int where "Q128 = 2 ^ 128"
definition Q192 :: int where "Q192 = 2 ^ 192"

section \<open>Fee growth accounting (fee module)\<close>

definition safeDiff :: "int \<Rightarrow> int \<Rightarrow> int" where
  "safeDiff a b = (if a \<ge> b then a - b else 0)"

record FeeGrowthInside =
  inside0 :: int
  inside1 :: int

definition computeFeeGrowthInside ::
  "int \<Rightarrow> int \<Rightarrow> int \<Rightarrow> int \<Rightarrow> int \<Rightarrow> int \<Rightarrow> int \<Rightarrow> int \<Rightarrow> int \<Rightarrow> FeeGrowthInside" where
  "computeFeeGrowthInside tickCurrent tickLower tickUpper feeGrowthGlobal0 feeGrowthGlobal1
      feeGrowthOutsideLower0 feeGrowthOutsideLower1 feeGrowthOutsideUpper0 feeGrowthOutsideUpper1 =
    (let below0 = (if tickCurrent \<ge> tickLower then feeGrowthOutsideLower0
                   else safeDiff feeGrowthGlobal0 feeGrowthOutsideLower0);
         below1 = (if tickCurrent \<ge> tickLower then feeGrowthOutsideLower1
                   else safeDiff feeGrowthGlobal1 feeGrowthOutsideLower1);
         above0 = (if tickCurrent < tickUpper then feeGrowthOutsideUpper0
                   else safeDiff feeGrowthGlobal0 feeGrowthOutsideUpper0);
         above1 = (if tickCurrent < tickUpper then feeGrowthOutsideUpper1
                   else safeDiff feeGrowthGlobal1 feeGrowthOutsideUpper1);
         inside0 = safeDiff (safeDiff feeGrowthGlobal0 below0) above0;
         inside1 = safeDiff (safeDiff feeGrowthGlobal1 below1) above1
     in \<lparr>inside0 = inside0, inside1 = inside1\<rparr>)"

definition calculateIncrementalFees :: "int \<Rightarrow> int \<Rightarrow> int \<Rightarrow> error + int" where
  "calculateIncrementalFees feeGrowthInsideCurrent feeGrowthInsideLast liquidity =
    (let feeGrowthDelta = safeDiff feeGrowthInsideCurrent feeGrowthInsideLast
     in bigint_div (feeGrowthDelta * liquidity) Q128)"

text \<open>
  The derivation as the specification words it, for one token: the difference floored
  at zero is written with \<open>max\<close>, and the three cases of the tick against the range
  are spelled out.
\<close>

definition safeDifference_spec :: "int \<Rightarrow> int \<Rightarrow> int" where
  "safeDifference_spec a b = max 0 (a - b)"

definition feeGrowthInside_spec :: "int \<Rightarrow> int \<Rightarrow> int \<Rightarrow> int \<Rightarrow> int \<Rightarrow> int \<Rightarrow> int" where
  "feeGrowthInside_spec tickCurrent tickLower tickUpper growthGlobal growthOutsideLower growthOutsideUpper =
    safeDifference_spec
      (safeDifference_spec growthGlobal
        (if tickCurrent \<ge> tickLower then growthOutsideLower
         else safeDifference_spec growthGlobal growthOutsideLower))
      (if tickCurrent < tickUpper then growthOutsideUpper
       else safeDifference_spec growthGlobal growthOutsideUpper)"

section \<open>Position phase and PnL (position module)\<close>

datatype PositionPhase = Phase_below | Phase_in_range | Phase_above

definition determinePhase :: "int \<Rightarrow> int \<Rightarrow> int \<Rightarrow> PositionPhase" where
  "determinePhase tickCurrent tickLower tickUpper =
    (if tickCurrent < tickLower then Phase_below
     else if tickCurrent \<ge> tickUpper then Phase_above
     else Phase_in_range)"

text \<open>
  \<^verbatim>\<open>calculatePnL\<close> returns \<^verbatim>\<open>pnlPercent\<close> as a JavaScript number,
  \<^verbatim>\<open>Number((pnl * 10000n) / costBasis) / 100\<close>: the \<^verbatim>\<open>bigint\<close> quotient is converted to the
  nearest double, and that double is divided by the double 100, the quotient rounded to
  the nearest double again. A JavaScript number is modelled by the real it stands for, or
  as one of the two infinities; \<^verbatim>\<open>NaN\<close> and the negative zero do not arise from these two
  operations.

  \<open>round_double\<close> is the rounding of IEEE 754 binary64 arithmetic, to nearest with ties
  to even: for the binary exponent \<open>e\<close> of \<open>x\<close> (\<open>2^e \<le> |x| < 2^(e+1)\<close>) the doubles
  around \<open>x\<close> are the multiples of \<open>2^(e-52)\<close>, or of \<open>2^-1074\<close> in the subnormal range;
  a result of magnitude \<open>2^1024\<close> or more is an infinity.
\<close>

datatype js_number = Finite real | PosInfinity | NegInfinity

definition binary_exponent :: "real \<Rightarrow> int" where
  "binary_exponent x =
    (if 1 \<le> \<bar>x\<bar> then bitlen \<lfloor>\<bar>x\<bar>\<rfloor> - 1 else - bitlen (\<lceil>1 / \<bar>x\<bar>\<rceil> - 1))"

definition round_half_even :: "real \<Rightarrow> int" where
  "round_half_even y =
    (let f = \<lfloor>y\<rfloor>; d = y - real_of_int f
     in if d < 1 / 2 then f else if 1 / 2 < d then f + 1 else if even f then f else f + 1)"

definition round_double :: "real \<Rightarrow> js_number" where
  "round_double x =
    (if x = 0 then Finite 0
     else
       let e = binary_exponent x;
           ulp = 2 powi (max (e - 52) (- 1074));
           r = real_of_int (round_half_even (x / ulp)) * ulp
       in if 2 ^ 1024 \<le> \<bar>r\<bar> then (if 0 < x then PosInfinity else NegInfinity) else Finite r)"

text \<open>\<^verbatim>\<open>Number(q)\<close> for a \<^verbatim>\<open>bigint\<close> \<open>q\<close>, and \<^verbatim>\<open>x / 100\<close> for a number \<open>x\<close>.\<close>

definition Number :: "int \<Rightarrow> js_number" where
  "Number q = round_double (real_of_int q)"

definition number_div_100 :: "js_number \<Rightarrow> js_number" where
  "number_div_100 x = (case x of Finite v \<Rightarrow> round_double (v / 100)
                       | PosInfinity \<Rightarrow> PosInfinity | NegInfinity \<Rightarrow> NegInfinity)"

record PnLResult =
  pnl :: int
  pnlPercent :: js_number

definition calculatePnL :: "int \<Rightarrow> int \<Rightarrow> error + PnLResult" where
  "calculatePnL currentValue costBasis =
    (let pnl = currentValue - costBasis
     in bindE (if costBasis > 0
               then bindE (bigint_div (pnl * 10000) costBasis) (\<lambda>q. Inr (number_div_100 (Number q)))
               else Inr (Finite 0))
          (\<lambda>pnlPercent. Inr \<lparr>pnl = pnl, pnlPercent = pnlPercent\<rparr>))"

section \<open>Liquidity conversions (liquidity module)\<close>

text \<open>
  Modelled from the spec: \<^verbatim>\<open>mulDiv\<close>, which the liquidity module imports from
  \<^verbatim>\<open>../math.js\<close>; that file is not among the sources. The specification gives the floor-rounded amounts as
  \<open>liquidity * (sqrtHigh - sqrtLow) * 2^96 / (sqrtHigh * sqrtLow)\<close> and
  \<open>liquidity * (sqrtHigh - sqrtLow) / 2^96\<close> with floor division, which are the calls
  \<^verbatim>\<open>mulDiv(numerator1, Q96, denominator)\<close> and \<^verbatim>\<open>mulDiv(liquidity, delta, Q96)\<close>: the product of
  the first two arguments divided by the third, as \<^verbatim>\<open>bigint\<close> division. The values that
  liquidity.fixtures.ts expects of the floor-rounded amounts agree with it.
\<close>

definition mulDiv :: "int \<Rightarrow> int \<Rightarrow> int \<Rightarrow> error + int" where
  "mulDiv a b denominator = bigint_div (a * b) denominator"

record TokenAmounts =
  token0Amount :: int
  token1Amount :: int

definition getAmount0FromLiquidity :: "int \<Rightarrow> int \<Rightarrow> int \<Rightarrow> bool \<Rightarrow> error + int" where
  "getAmount0FromLiquidity sqrtPriceLower sqrtPriceUpper liquidity roundUp =
    (if sqrtPriceUpper \<le> sqrtPriceLower \<or> liquidity = 0 then Inr 0
     else
       let numerator1 = liquidity * (sqrtPriceUpper - sqrtPriceLower);
           denominator = sqrtPriceUpper * sqrtPriceLower
       in if roundUp then
            let product = numerator1 * Q96
            in bindE (bigint_mod product denominator) (\<lambda>r.
                 if r = 0 then bigint_div product denominator
                 else bindE (bigint_div product denominator) (\<lambda>q. Inr (q + 1)))
          else mulDiv numerator1 Q96 denominator)"

definition getAmount1FromLiquidity :: "int \<Rightarrow> int \<Rightarrow> int \<Rightarrow> bool \<Rightarrow> error + int" where
  "getAmount1FromLiquidity sqrtPriceLower sqrtPriceUpper liquidity roundUp =
    (if sqrtPriceUpper \<le> sqrtPriceLower \<or> liquidity = 0 then Inr 0
     else
       let delta = sqrtPriceUpper - sqrtPriceLower
       in if roundUp then
            let product = liquidity * delta
            in bindE (bigint_mod product Q96) (\<lambda>r.
                 if r = 0 then bigint_div product Q96
                 else bindE (bigint_div product Q96) (\<lambda>q. Inr (q + 1)))
          else mulDiv liquidity delta Q96)"

definition getLiquidityFromAmount0 :: "int \<Rightarrow> int \<Rightarrow> int \<Rightarrow> bool \<Rightarrow> error + int" where
  "getLiquidityFromAmount0 sqrtPriceLower sqrtPriceUpper amount0 roundUp =
    (if sqrtPriceUpper \<le> sqrtPriceLower \<or> amount0 \<le> 0 then Inr 0
     else
       let delta = sqrtPriceUpper - sqrtPriceLower;
           numerator = amount0 * (sqrtPriceLower * sqrtPriceUpper);
           denominator = Q96 * delta
       in if roundUp then bigint_div (numerator + denominator - 1) denominator
          else bigint_div numerator denominator)"

definition getLiquidityFromAmount1 :: "int \<Rightarrow> int \<Rightarrow> int \<Rightarrow> bool \<Rightarrow> error + int" where
  "getLiquidityFromAmount1 sqrtPriceLower sqrtPriceUpper amount1 roundUp =
    (if sqrtPriceUpper \<le> sqrtPriceLower \<or> amount1 \<le> 0 then Inr 0
     else
       let delta = sqrtPriceUpper - sqrtPriceLower;
           numerator = amount1 * Q96;
           denominator = delta
       in if roundUp then bigint_div (numerator + denominator - 1) denominator
          else bigint_div numerator denominator)"

definition getTokenAmountsFromLiquidity_X96 ::
  "int \<Rightarrow> int \<Rightarrow> int \<Rightarrow> int \<Rightarrow> bool \<Rightarrow> error + TokenAmounts" where
  "getTokenAmountsFromLiquidity_X96 liquidity sqrtPriceCurrentX96 sqrtPriceLowerX96 sqrtPriceUpperX96 roundUp =
    (if liquidity = 0 then Inr \<lparr>token0Amount = 0, token1Amount = 0\<rparr>
     else if sqrtPriceCurrentX96 \<le> sqrtPriceLowerX96 then
       bindE (getAmount0FromLiquidity sqrtPriceLowerX96 sqrtPriceUpperX96 liquidity roundUp) (\<lambda>a0.
         Inr \<lparr>token0Amount = a0, token1Amount = 0\<rparr>)
     else if sqrtPriceCurrentX96 \<ge> sqrtPriceUpperX96 then
       bindE (getAmount1FromLiquidity sqrtPriceLowerX96 sqrtPriceUpperX96 liquidity roundUp) (\<lambda>a1.
         Inr \<lparr>token0Amount = 0, token1Amount = a1\<rparr>)
     else
       bindE (getAmount0FromLiquidity sqrtPriceCurrentX96 sqrtPriceUpperX96 liquidity roundUp) (\<lambda>a0.
       bindE (getAmount1FromLiquidity sqrtPriceLowerX96 sqrtPriceCurrentX96 liquidity roundUp) (\<lambda>a1.
         Inr \<lparr>token0Amount = a0, token1Amount = a1\<rparr>)))"

definition getLiquidityFromTokenAmounts_X96 ::
  "int \<Rightarrow> int \<Rightarrow> int \<Rightarrow> int \<Rightarrow> int \<Rightarrow> error + int" where
  "getLiquidityFromTokenAmounts_X96 sqrtPriceCurrentX96 sqrtPriceLowerX96 sqrtPriceUpperX96 token0Amt token1Amt =
    (if sqrtPriceCurrentX96 \<le> sqrtPriceLowerX96 then
       getLiquidityFromAmount0 sqrtPriceLowerX96 sqrtPriceUpperX96 token0Amt False
     else if sqrtPriceCurrentX96 \<ge> sqrtPriceUpperX96 then
       getLiquidityFromAmount1 sqrtPriceLowerX96 sqrtPriceUpperX96 token1Amt False
     else
       bindE (getLiquidityFromAmount0 sqrtPriceCurrentX96 sqrtPriceUpperX96 token0Amt False) (\<lambda>liquidity0.
       bindE (getLiquidityFromAmount1 sqrtPriceLowerX96 sqrtPriceCurrentX96 token1Amt False) (\<lambda>liquidity1.
         Inr (if liquidity0 < liquidity1 then liquidity0 else liquidity1))))"

text \<open>Investment sizing: the helpers first, as the callers need them.\<close>

definition totalBudgetInQuote :: "int \<Rightarrow> int \<Rightarrow> bool \<Rightarrow> int \<Rightarrow> error + int" where
  "totalBudgetInQuote baseAmount quoteAmount isQuoteToken0 S =
    bindE (if isQuoteToken0 then bigint_div (baseAmount * Q192) (S * S)
           else bigint_div (baseAmount * S * S) Q192) (\<lambda>baseAsQuote.
      Inr (quoteAmount + baseAsQuote))"

definition quoteToToken0 :: "int \<Rightarrow> int \<Rightarrow> error + int" where
  "quoteToToken0 amountQuoteToken1 S = bigint_div (amountQuoteToken1 * Q192) (S * S)"

definition token0ToQuoteToken1 :: "int \<Rightarrow> int \<Rightarrow> error + int" where
  "token0ToQuoteToken1 amountQuoteToken0 S = bigint_div (amountQuoteToken0 * S * S) Q192"

definition K_Q96_inToken1 :: "int \<Rightarrow> int \<Rightarrow> int \<Rightarrow> error + int" where
  "K_Q96_inToken1 B A S =
    (if S \<le> B then Inr 0
     else if S \<ge> A then Inr 0
     else
       let term1 = S - B
       in bindE (bigint_div (S * (A - S)) A) (\<lambda>term2. Inr (term1 + term2)))"

definition K_Q96_inToken0 :: "int \<Rightarrow> int \<Rightarrow> int \<Rightarrow> error + int" where
  "K_Q96_inToken0 B A S =
    (if S \<le> B then Inr 0
     else if S \<ge> A then Inr 0
     else
       bindE (bigint_div (Q192 * (A - S)) (A * S)) (\<lambda>termA.
       bindE (bigint_div (Q192 * (S - B)) (S * S)) (\<lambda>termB.
         Inr (termA + termB))))"

definition getLiquidityFromInvestmentAmounts ::
  "int \<Rightarrow> nat \<Rightarrow> int \<Rightarrow> nat \<Rightarrow> bool \<Rightarrow> int \<Rightarrow> int \<Rightarrow> int \<Rightarrow> error + int" where
  "getLiquidityFromInvestmentAmounts baseAmount baseDecimals quoteAmount quoteDecimals isQuoteToken0
      sqrtPriceLowerX96 sqrtPriceUpperX96 sqrtPriceCurrentX96 =
    (if baseAmount \<le> 0 \<and> quoteAmount \<le> 0 then Inr 0
     else
       let A = (if sqrtPriceUpperX96 > sqrtPriceLowerX96 then sqrtPriceUpperX96 else sqrtPriceLowerX96);
           B = (if sqrtPriceUpperX96 > sqrtPriceLowerX96 then sqrtPriceLowerX96 else sqrtPriceUpperX96);
           S = sqrtPriceCurrentX96
       in if S \<le> B then
            bindE (totalBudgetInQuote baseAmount quoteAmount isQuoteToken0 S) (\<lambda>totalBudgetQuote.
            bindE (if isQuoteToken0 then Inr totalBudgetQuote
                   else quoteToToken0 totalBudgetQuote S) (\<lambda>amount0.
              getLiquidityFromAmount0 B A amount0 False))
          else if S \<ge> A then
            bindE (totalBudgetInQuote baseAmount quoteAmount isQuoteToken0 S) (\<lambda>totalBudgetQuote.
            bindE (if isQuoteToken0 then token0ToQuoteToken1 totalBudgetQuote S
                   else Inr totalBudgetQuote) (\<lambda>amount1.
              getLiquidityFromAmount1 B A amount1 False))
          else
            bindE (totalBudgetInQuote baseAmount quoteAmount isQuoteToken0 S) (\<lambda>budgetQuote.
            bindE (if isQuoteToken0 then K_Q96_inToken0 B A S
                   else K_Q96_inToken1 B A S) (\<lambda>K_Q96.
              if K_Q96 \<le> 0 then Inr 0
              else bigint_div (budgetQuote * Q96) K_Q96)))"

text \<open>
  The single-token amounts as the specification writes them: the exact quotient, rounded
  up to the next integer when \<open>roundUp\<close> is set and down otherwise.
\<close>

definition amount0_spec :: "int \<Rightarrow> int \<Rightarrow> int \<Rightarrow> bool \<Rightarrow> int" where
  "amount0_spec L low high roundUp =
    (let q = real_of_int (L * (high - low) * 2 ^ 96) / real_of_int (high * low)
     in if roundUp then \<lceil>q\<rceil> else \<lfloor>q\<rfloor>)"

definition amount1_spec :: "int \<Rightarrow> int \<Rightarrow> int \<Rightarrow> bool \<Rightarrow> int" where
  "amount1_spec L low high roundUp =
    (let q = real_of_int (L * (high - low)) / 2 ^ 96
     in if roundUp then \<lceil>q\<rceil> else \<lfloor>q\<rfloor>)"

text \<open>
  The single-token liquidities with floor rounding: the exact quotient rounded down; an
  amount that is not positive gives no liquidity.
\<close>

definition liquidityFromAmount0_floor :: "int \<Rightarrow> int \<Rightarrow> int \<Rightarrow> int" where
  "liquidityFromAmount0_floor low high amount0 =
    (if amount0 \<le> 0 then 0
     else \<lfloor>real_of_int (amount0 * (low * high)) / real_of_int (2 ^ 96 * (high - low))\<rfloor>)"

definition liquidityFromAmount1_floor :: "int \<Rightarrow> int \<Rightarrow> int \<Rightarrow> int" where
  "liquidityFromAmount1_floor low high amount1 =
    (if amount1 \<le> 0 then 0
     else \<lfloor>real_of_int (amount1 * 2 ^ 96) / real_of_int (high - low)\<rfloor>)"

text \<open>
  Investment sizing as the specification writes it, for the upper, lower and current
  square-root prices \<open>A\<close>, \<open>B\<close> and \<open>S\<close>: the budget is the quote amount plus the base
  amount converted at \<open>S\<close> (rounded down), and the liquidity is the budget times \<open>2^96\<close>
  over the constant \<open>K\<close> (rounded down), or zero when \<open>K\<close> is not positive.
\<close>

definition K_inToken1_spec :: "int \<Rightarrow> int \<Rightarrow> int \<Rightarrow> int" where
  "K_inToken1_spec B A S = (S - B) + \<lfloor>real_of_int (S * (A - S)) / real_of_int A\<rfloor>"

definition K_inToken0_spec :: "int \<Rightarrow> int \<Rightarrow> int \<Rightarrow> int" where
  "K_inToken0_spec B A S =
     \<lfloor>real_of_int (2 ^ 192 * (A - S)) / real_of_int (A * S)\<rfloor>
     + \<lfloor>real_of_int (2 ^ 192 * (S - B)) / real_of_int (S * S)\<rfloor>"

definition budgetInQuote_spec :: "int \<Rightarrow> int \<Rightarrow> bool \<Rightarrow> int \<Rightarrow> int" where
  "budgetInQuote_spec baseAmount quoteAmount isQuoteToken0 S =
     quoteAmount + (if isQuoteToken0
                    then \<lfloor>real_of_int (baseAmount * 2 ^ 192) / real_of_int (S * S)\<rfloor>
                    else \<lfloor>real_of_int (baseAmount * S * S) / real_of_int (2 ^ 192)\<rfloor>)"

definition investmentLiquidity_spec :: "int \<Rightarrow> int \<Rightarrow> bool \<Rightarrow> int \<Rightarrow> int \<Rightarrow> int \<Rightarrow> int" where
  "investmentLiquidity_spec baseAmount quoteAmount isQuoteToken0 B A S =
     (let K = (if isQuoteToken0 then K_inToken0_spec B A S else K_inToken1_spec B A S);
          budget = budgetInQuote_spec baseAmount quoteAmount isQuoteToken0 S
      in if K \<le> 0 then 0 else \<lfloor>real_of_int (budget * 2 ^ 96) / real_of_int K\<rfloor>)"

section \<open>The Uniswap SDK as a parameter\<close>

text \<open>
  The price, liquidity and position modules call four functions of the external package
  \<^verbatim>\<open>@uniswap/v3-sdk\<close>: \<^verbatim>\<open>encodeSqrtRatioX96(amount1, amount0)\<close>,
  \<^verbatim>\<open>TickMath.getSqrtRatioAtTick(tick)\<close>, \<^verbatim>\<open>TickMath.getTickAtSqrtRatio(sqrtRatio)\<close> and
  \<^verbatim>\<open>nearestUsableTick(tick, tickSpacing)\<close>. The package is no part of the repository, so
  the functions that call it take it as a parameter; each of its functions returns a
  value or throws. \<^verbatim>\<open>JSBI\<close> values are integers like \<^verbatim>\<open>bigint\<close> values.
\<close>

record sdk =
  encodeSqrtRatioX96 :: "int \<Rightarrow> int \<Rightarrow> error + int"
  getSqrtRatioAtTick :: "int \<Rightarrow> error + int"
  getTickAtSqrtRatio :: "int \<Rightarrow> error + int"
  nearestUsableTick :: "int \<Rightarrow> int \<Rightarrow> error + int"


section \<open>Price and tick conversions (price module)\<close>

definition priceToSqrtRatioX96 :: "sdk \<Rightarrow> nat \<Rightarrow> nat \<Rightarrow> nat \<Rightarrow> int \<Rightarrow> error + int" where
  "priceToSqrtRatioX96 lib baseTokenAddress quoteTokenAddress baseTokenDecimals price =
    (if price \<le> 0 then Inl (Error ''price must be a positive bigint'')
     else
       let baseIsToken0 = baseTokenAddress < quoteTokenAddress;
           amount0 = (if baseIsToken0 then 10 ^ baseTokenDecimals else price);
           amount1 = (if baseIsToken0 then price else 10 ^ baseTokenDecimals)
       in encodeSqrtRatioX96 lib amount1 amount0)"

definition priceToTick :: "sdk \<Rightarrow> int \<Rightarrow> int \<Rightarrow> nat \<Rightarrow> nat \<Rightarrow> nat \<Rightarrow> error + int" where
  "priceToTick lib price tickSpacing baseTokenAddress quoteTokenAddress baseTokenDecimals =
    bindE (priceToSqrtRatioX96 lib baseTokenAddress quoteTokenAddress baseTokenDecimals price) (\<lambda>sqrt.
    bindE (getTickAtSqrtRatio lib sqrt) (\<lambda>tickFloor.
      nearestUsableTick lib tickFloor tickSpacing))"


section \<open>Position value and the PnL curve (liquidity and position modules)\<close>

definition getTokenAmountsFromLiquidity ::
  "sdk \<Rightarrow> int \<Rightarrow> int \<Rightarrow> int \<Rightarrow> int \<Rightarrow> bool \<Rightarrow> error + TokenAmounts" where
  "getTokenAmountsFromLiquidity lib liquidity sqrtPriceCurrentX96 tickLower tickUpper roundUp =
    bindE (getSqrtRatioAtTick lib tickLower) (\<lambda>sqrtPriceLowerX96.
    bindE (getSqrtRatioAtTick lib tickUpper) (\<lambda>sqrtPriceUpperX96.
      getTokenAmountsFromLiquidity_X96 liquidity sqrtPriceCurrentX96 sqrtPriceLowerX96
        sqrtPriceUpperX96 roundUp))"

definition calculatePositionValue ::
  "sdk \<Rightarrow> int \<Rightarrow> int \<Rightarrow> int \<Rightarrow> int \<Rightarrow> int \<Rightarrow> bool \<Rightarrow> nat \<Rightarrow> error + int" where
  "calculatePositionValue lib liquidity sqrtPriceCurrentX96 tickLower tickUpper currentPrice
      baseIsToken0 baseDecimals =
    (if liquidity = 0 then Inr 0
     else
       bindE (getTokenAmountsFromLiquidity lib liquidity sqrtPriceCurrentX96 tickLower tickUpper False)
         (\<lambda>amounts.
           if baseIsToken0 then
             bindE (bigint_div (token0Amount amounts * currentPrice) (10 ^ baseDecimals)) (\<lambda>v.
               Inr (v + token1Amount amounts))
           else
             bindE (bigint_div (token1Amount amounts * currentPrice) (10 ^ baseDecimals)) (\<lambda>v.
               Inr (token0Amount amounts + v))))"

record PnLPoint = PnLResult +
  price :: int
  positionValue :: int
  phase :: PositionPhase

record PriceRange =
  min_price :: int
  max_price :: int

text \<open>
  A loop that pushes one element per index and stops at the first exception: the
  elements in order, or the first error.
\<close>

fun mapE :: "('a \<Rightarrow> error + 'b) \<Rightarrow> 'a list \<Rightarrow> error + 'b list" where
  "mapE f [] = Inr []"
| "mapE f (x # xs) = bindE (f x) (\<lambda>y. bindE (mapE f xs) (\<lambda>ys. Inr (y # ys)))"

text \<open>The body of the loop of \<^verbatim>\<open>generatePnLCurve\<close> at index \<open>i\<close>.\<close>

definition pnlCurvePoint ::
  "sdk \<Rightarrow> int \<Rightarrow> int \<Rightarrow> int \<Rightarrow> int \<Rightarrow> nat \<Rightarrow> nat \<Rightarrow> nat \<Rightarrow> int \<Rightarrow> PriceRange \<Rightarrow> int \<Rightarrow> bool \<Rightarrow> int
     \<Rightarrow> error + PnLPoint" where
  "pnlCurvePoint lib liquidity tickLower tickUpper costBasis baseTokenAddress quoteTokenAddress
      baseTokenDecimals tickSpacing priceRange priceStep baseIsToken0 i =
    (let price = min_price priceRange + i * priceStep
     in bindE (priceToTick lib price tickSpacing baseTokenAddress quoteTokenAddress baseTokenDecimals)
          (\<lambda>tick.
        bindE (getSqrtRatioAtTick lib tick) (\<lambda>sqrtPriceX96.
        bindE (calculatePositionValue lib liquidity sqrtPriceX96 tickLower tickUpper price
                 baseIsToken0 baseTokenDecimals) (\<lambda>positionValue.
        bindE (calculatePnL positionValue costBasis) (\<lambda>r.
          let phase = determinePhase tick tickLower tickUpper
          in Inr \<lparr>pnl = pnl r, pnlPercent = pnlPercent r, price = price,
                  positionValue = positionValue, phase = phase\<rparr>)))))"

definition generatePnLCurve ::
  "sdk \<Rightarrow> int \<Rightarrow> int \<Rightarrow> int \<Rightarrow> int \<Rightarrow> nat \<Rightarrow> nat \<Rightarrow> nat \<Rightarrow> int \<Rightarrow> PriceRange \<Rightarrow> int
     \<Rightarrow> error + PnLPoint list" where
  "generatePnLCurve lib liquidity tickLower tickUpper costBasis baseTokenAddress quoteTokenAddress
      baseTokenDecimals tickSpacing priceRange numPoints =
    bindE (bigint_div (max_price priceRange - min_price priceRange) numPoints) (\<lambda>priceStep.
      let baseIsToken0 = baseTokenAddress < quoteTokenAddress
      in mapE (pnlCurvePoint lib liquidity tickLower tickUpper costBasis baseTokenAddress
                 quoteTokenAddress baseTokenDecimals tickSpacing priceRange priceStep baseIsToken0)
           [0..numPoints])"

text \<open>
  The order in which the specification expects the phases along a curve of increasing
  prices: below, then in-range, then above.
\<close>

definition phase_rank :: "PositionPhase \<Rightarrow> nat" where
  "phase_rank p = (case p of Phase_below \<Rightarrow> 0 | Phase_in_range \<Rightarrow> 1 | Phase_above \<Rightarrow> 2)"

text \<open>
  A table of the SDK at the price ratio 1, for evaluating the functions above on a
  concrete input: \<^verbatim>\<open>encodeSqrtRatioX96(a, a)\<close> is \<open>2^96\<close> for \<open>a > 0\<close> (the square root of
  \<open>2^192\<close>), \<^verbatim>\<open>getTickAtSqrtRatio(2^96)\<close> is tick 0, \<^verbatim>\<open>nearestUsableTick(0, s)\<close> is 0 for a
  spacing \<open>s > 0\<close>, and \<^verbatim>\<open>getSqrtRatioAtTick(0)\<close> is \<open>2^96\<close> (price.test.ts expects it). No
  other input is tabulated; the table reports it as an error.
\<close>

definition sdk_at_ratio_one :: sdk where
  "sdk_at_ratio_one =
    \<lparr>encodeSqrtRatioX96 = (\<lambda>amount1 amount0.
        if 0 < amount0 \<and> amount1 = amount0 then Inr (2 ^ 96) else Inl (Error ''not tabulated'')),
     getSqrtRatioAtTick = (\<lambda>tick.
        if tick = 0 then Inr (2 ^ 96) else Inl (Error ''not tabulated'')),
     getTickAtSqrtRatio = (\<lambda>sqrtRatio.
        if sqrtRatio = 2 ^ 96 then Inr 0 else Inl (Error ''not tabulated'')),
     nearestUsableTick = (\<lambda>tick tickSpacing.
        if tick = 0 \<and> 0 < tickSpacing then Inr 0 else Inl (Error ''not tabulated''))\<rparr>"

text \<open>
  What the order of the phases along a curve needs of the SDK: each of the three
  functions on the way from a price to a tick keeps the order of its arguments, wherever
  it returns. The encoder does not decrease with \<open>amount1\<close> and does not increase with
  \<open>amount0\<close>, for a positive \<open>amount0\<close> and an \<open>amount1\<close> that is not negative; the tick
  does not decrease with the square-root ratio; the usable tick does not decrease with
  the tick.
\<close>

definition sdk_monotone :: "sdk \<Rightarrow> bool" where
  "sdk_monotone lib \<longleftrightarrow>
    (\<forall>amount0 amount1 amount1' s s'.
        0 < amount0 \<and> amount1 \<le> amount1'
        \<and> encodeSqrtRatioX96 lib amount1 amount0 = Inr s
        \<and> encodeSqrtRatioX96 lib amount1' amount0 = Inr s' \<longrightarrow> s \<le> s')
  \<and> (\<forall>amount1 amount0 amount0' s s'.
        0 \<le> amount1 \<and> 0 < amount0 \<and> amount0 \<le> amount0'
        \<and> encodeSqrtRatioX96 lib amount1 amount0 = Inr s
        \<and> encodeSqrtRatioX96 lib amount1 amount0' = Inr s' \<longrightarrow> s' \<le> s)
  \<and> (\<forall>s s' t t'.
        s \<le> s' \<and> getTickAtSqrtRatio lib s = Inr t \<and> getTickAtSqrtRatio lib s' = Inr t'
        \<longrightarrow> t \<le> t')
  \<and> (\<forall>t t' tickSpacing u u'.
        t \<le> t' \<and> nearestUsableTick lib t tickSpacing = Inr u
        \<and> nearestUsableTick lib t' tickSpacing = Inr u' \<longrightarrow> u \<le> u')"

text \<open>
  A stand-in for the SDK that keeps these orders, for running the curve over more than
  one tick. It is not the package: its tick is linear in the price ratio
  \<open>amount1 / amount0\<close>, where the package's is logarithmic. The encoder returns the ratio
  times \<open>2^96\<close>, rounded down; the tick of a ratio \<open>r * 2^96\<close> is \<open>\<lfloor>r\<rfloor> - 1\<close>, for ratios
  of at least one; tick \<open>t \<ge> 0\<close> has the ratio \<open>(t + 1) * 2^96\<close>; the usable tick is the
  nearest multiple of a positive spacing, halves rounded up. At the ratio 1 it returns
  what \<open>sdk_at_ratio_one\<close> tabulates.
\<close>

definition sdk_linear :: sdk where
  "sdk_linear =
    \<lparr>encodeSqrtRatioX96 = (\<lambda>amount1 amount0.
        if 0 < amount0 \<and> 0 \<le> amount1 then Inr ((amount1 * 2 ^ 96) div amount0)
        else Inl (Error ''not covered'')),
     getSqrtRatioAtTick = (\<lambda>tick.
        if 0 \<le> tick then Inr ((tick + 1) * 2 ^ 96) else Inl (Error ''not covered'')),
     getTickAtSqrtRatio = (\<lambda>sqrtRatio.
        if 2 ^ 96 \<le> sqrtRatio then Inr (sqrtRatio div 2 ^ 96 - 1) else Inl (Error ''not covered'')),
     nearestUsableTick = (\<lambda>tick tickSpacing.
        if 0 < tickSpacing then Inr ((2 * tick + tickSpacing) div (2 * tickSpacing) * tickSpacing)
        else Inl (Error ''not covered''))\<rparr>"

text \<open>
  The percentage in whole basis points, truncated toward zero: the value of the
  \<^verbatim>\<open>bigint\<close> quotient \<^verbatim>\<open>(pnl * 10000n) / costBasis\<close> for a positive cost basis.
\<close>

definition basisPoints_trunc :: "int \<Rightarrow> int \<Rightarrow> int" where
  "basisPoints_trunc p c = sgn p * \<lfloor>10000 * \<bar>real_of_int p\<bar> / real_of_int c\<rfloor>"

section \<open>Basic facts\<close>

lemma bindE_Inr [simp]: "bindE (Inr v) f = f v"
  by (simp add: bindE_def)

lemma bindE_Inl [simp]: "bindE (Inl e) f = Inl e"
  by (simp add: bindE_def)

lemma sdiv_nonneg_pos: "0 \<le> a \<Longrightarrow> 0 < b \<Longrightarrow> a sdiv b = a div (b::int)"
  by (simp add: signed_divide_int_def sgn_if)

lemma bigint_div_nonneg_pos: "0 \<le> a \<Longrightarrow> 0 < b \<Longrightarrow> bigint_div a b = Inr (a div b)"
  by (simp add: bigint_div_def sdiv_nonneg_pos)

lemma safeDiff_spec: "safeDiff a b = safeDifference_spec a b"
  by (simp add: safeDiff_def safeDifference_spec_def)

section \<open>Fee growth inside a range\<close>

text \<open>
  C5. For every tick triple and every accumulator input, \<^verbatim>\<open>computeFeeGrowthInside\<close>
  returns for each token, independently of the other token, the value the
  specification derives: below is the lower tick's outside growth when the current tick
  is at or above the lower tick and the floored difference from the global growth
  otherwise; above is the upper tick's outside growth when the current tick is under the
  upper tick and the floored difference otherwise; inside is the global growth less
  below, less above, each difference floored at zero. \<^verbatim>\<open>safeDiff a b\<close> is \<open>a - b\<close> when
  \<open>a \<ge> b\<close> and zero otherwise.
\<close>

theorem computeFeeGrowthInside_spec:
  "computeFeeGrowthInside tickC tickL tickU g0 g1 ol0 ol1 ou0 ou1 =
     \<lparr>inside0 = feeGrowthInside_spec tickC tickL tickU g0 ol0 ou0,
      inside1 = feeGrowthInside_spec tickC tickL tickU g1 ol1 ou1\<rparr>
   \<and> safeDiff a b = (if a \<ge> b then a - b else 0)"
proof
  show "computeFeeGrowthInside tickC tickL tickU g0 g1 ol0 ol1 ou0 ou1 =
     \<lparr>inside0 = feeGrowthInside_spec tickC tickL tickU g0 ol0 ou0,
      inside1 = feeGrowthInside_spec tickC tickL tickU g1 ol1 ou1\<rparr>"
    unfolding computeFeeGrowthInside_def feeGrowthInside_spec_def Let_def safeDiff_spec
    by simp
next
  show "safeDiff a b = (if a \<ge> b then a - b else 0)"
    by (simp add: safeDiff_def)
qed

section \<open>Phase of a position\<close>

text \<open>
  C8 as stated fails on a triple whose lower tick lies above its upper tick: the test
  against the lower tick comes first, so a current tick between the two is reported
  below although it is at or above the upper tick.
\<close>

theorem determinePhase_inverted_range:
  "determinePhase 5 10 0 = Phase_below \<and> (5::int) \<ge> 0
   \<and> \<not> (determinePhase 5 10 0 = Phase_above \<longleftrightarrow> (5::int) \<ge> 0)"
  by (simp add: determinePhase_def)

text \<open>
  C8, amended. \<^verbatim>\<open>determinePhase\<close> returns below exactly when the current tick is under
  the lower tick, above exactly when it is at or over both the upper and the lower tick
  (for a lower tick not over the upper tick: exactly when it is at or over the upper
  tick), and in-range otherwise. A current tick equal to the upper tick yields above
  when the lower tick is not over the upper tick (the upper bound is exclusive); a
  current tick equal to the lower tick yields in-range when the lower tick is under the
  upper tick (the lower bound is inclusive).
\<close>

theorem determinePhase_cases:
  "(determinePhase tickC tickL tickU = Phase_below \<longleftrightarrow> tickC < tickL)
   \<and> (determinePhase tickC tickL tickU = Phase_above \<longleftrightarrow> tickL \<le> tickC \<and> tickU \<le> tickC)
   \<and> (determinePhase tickC tickL tickU = Phase_in_range \<longleftrightarrow> tickL \<le> tickC \<and> tickC < tickU)
   \<and> (tickL \<le> tickU \<longrightarrow> (determinePhase tickC tickL tickU = Phase_above \<longleftrightarrow> tickU \<le> tickC))
   \<and> (tickL \<le> tickU \<longrightarrow> determinePhase tickU tickL tickU = Phase_above)
   \<and> (tickL < tickU \<longrightarrow> determinePhase tickL tickL tickU = Phase_in_range)"
  by (auto simp add: determinePhase_def)

theorem determinePhase_cases_witness:
  "(-60::int) < 60
   \<and> determinePhase 60 (-60) 60 = Phase_above
   \<and> determinePhase (-60) (-60) 60 = Phase_in_range
   \<and> determinePhase (-61) (-60) 60 = Phase_below
   \<and> determinePhase 59 (-60) 60 = Phase_in_range"
  using determinePhase_cases [of "60" "-60" "60"] determinePhase_cases [of "-60" "-60" "60"]
    determinePhase_cases [of "-61" "-60" "60"] determinePhase_cases [of "59" "-60" "60"]
  by simp

section \<open>Rounding to a double\<close>

lemma binary_exponent_bounds:
  assumes "x \<noteq> 0"
  shows "2 powi (binary_exponent x) \<le> \<bar>x\<bar>" and "\<bar>x\<bar> < 2 powi (binary_exponent x + 1)"
proof -
  have "2 powi (binary_exponent x) \<le> \<bar>x\<bar> \<and> \<bar>x\<bar> < 2 powi (binary_exponent x + 1)"
  proof (cases "1 \<le> \<bar>x\<bar>")
    case True
    define n where "n = \<lfloor>\<bar>x\<bar>\<rfloor>"
    have n: "0 < n" "real_of_int n \<le> \<bar>x\<bar>" "\<bar>x\<bar> < real_of_int n + 1"
      using True unfolding n_def by linarith+
    define k where "k = nat (bitlen n - 1)"
    have b1: "1 \<le> bitlen n"
      using n(1) by (simp add: bitlen_alt_def)
    then have e: "binary_exponent x = int k"
      using True by (simp add: binary_exponent_def n_def k_def)
    have kk: "nat (bitlen n) = Suc k"
      using b1 by (simp add: k_def)
    from bitlen_bounds [OF n(1)] have lo: "2 ^ k \<le> n" and hi: "n < 2 ^ Suc k"
      unfolding kk k_def [symmetric] by blast+
    from hi have "n + 1 \<le> 2 ^ Suc k" by simp
    then have "real_of_int (n + 1) \<le> real_of_int (2 ^ Suc k)"
      by (rule of_int_le_iff [THEN iffD2])
    then have hi': "real_of_int n + 1 \<le> 2 ^ Suc k" by simp
    from lo have "real_of_int (2 ^ k) \<le> real_of_int n"
      by (rule of_int_le_iff [THEN iffD2])
    then have lo': "(2::real) ^ k \<le> real_of_int n" by simp
    have p1: "(2::real) powi (int k) = 2 ^ k"
      by simp
    have p2: "(2::real) powi (int k + 1) = 2 ^ Suc k"
      by (simp add: power_int_add)
    have A: "2 powi (int k) \<le> \<bar>x\<bar>"
      unfolding p1 using lo' n(2) by (rule order_trans)
    have B: "\<bar>x\<bar> < 2 powi (int k + 1)"
      unfolding p2 using n(3) hi' by (rule less_le_trans)
    show ?thesis
      unfolding e using A B by (rule conjI)
  next
    case False
    define y where "y = 1 / \<bar>x\<bar>"
    have y1: "1 < y"
      using False assms by (simp add: y_def)
    define m where "m = \<lceil>y\<rceil>"
    have m: "y \<le> real_of_int m" "real_of_int m - 1 < y" "0 < m - 1"
      using y1 unfolding m_def by linarith+
    define k where "k = nat (bitlen (m - 1) - 1)"
    have b1: "1 \<le> bitlen (m - 1)"
      using m(3) by (simp add: bitlen_alt_def)
    have kk: "nat (bitlen (m - 1)) = Suc k" "bitlen (m - 1) = int (Suc k)"
      using b1 by (simp_all add: k_def)
    have e: "binary_exponent x = - int (Suc k)"
      using False kk(2) by (simp add: binary_exponent_def m_def y_def)
    from bitlen_bounds [OF m(3)] have lo: "2 ^ k \<le> m - 1" and hi: "m - 1 < 2 ^ Suc k"
      unfolding kk(1) k_def [symmetric] by blast+
    from hi have "m \<le> 2 ^ Suc k" by simp
    then have "real_of_int m \<le> real_of_int (2 ^ Suc k)"
      by (rule of_int_le_iff [THEN iffD2])
    then have yhi: "y \<le> 2 ^ Suc k"
      using m(1) by simp
    from lo have "real_of_int (2 ^ k) \<le> real_of_int (m - 1)"
      by (rule of_int_le_iff [THEN iffD2])
    then have ylo: "2 ^ k < y"
      using m(2) by simp
    have xpos: "0 < \<bar>x\<bar>"
      using assms by simp
    have x: "\<bar>x\<bar> = 1 / y"
      by (simp add: y_def)
    have "1 / 2 ^ Suc k \<le> 1 / y"
      using yhi y1 by (intro divide_left_mono) simp_all
    moreover have "(2::real) powi (- int (Suc k)) = 1 / 2 ^ Suc k"
      by (simp only: power_int_minus_divide power_int_of_nat)
    ultimately have A: "2 powi (- int (Suc k)) \<le> \<bar>x\<bar>"
      unfolding x by (simp only:)
    have "1 / y < 1 / 2 ^ k"
      using ylo y1 by (intro divide_strict_left_mono mult_pos_pos) simp_all
    moreover have "(2::real) powi (- int (Suc k) + 1) = 1 / 2 ^ k"
    proof -
      have "- int (Suc k) + 1 = - int k"
        by simp
      then show ?thesis
        by (simp only: power_int_minus_divide power_int_of_nat)
    qed
    ultimately have B: "\<bar>x\<bar> < 2 powi (- int (Suc k) + 1)"
      unfolding x by (simp only:)
    show ?thesis
      unfolding e using A B by (rule conjI)
  qed
  then show "2 powi (binary_exponent x) \<le> \<bar>x\<bar>" and "\<bar>x\<bar> < 2 powi (binary_exponent x + 1)"
    by simp_all
qed

lemma pow2_less_imp_less:
  assumes "(2::real) powi a < 2 powi b"
  shows "a < b"
proof (rule ccontr)
  assume "\<not> a < b"
  then have "b \<le> a" by simp
  then have "(2::real) powi b \<le> 2 powi a"
    by (intro power_int_increasing) simp_all
  with assms show False by simp
qed

lemma binary_exponent_eqI:
  assumes "2 powi e \<le> \<bar>x\<bar>" "\<bar>x\<bar> < 2 powi (e + 1)"
  shows "binary_exponent x = e"
proof -
  have "0 < (2::real) powi e"
    by simp
  with assms(1) have "0 < \<bar>x\<bar>"
    by linarith
  then have "x \<noteq> 0"
    by simp
  note b = binary_exponent_bounds [OF this]
  have "(2::real) powi e < 2 powi (binary_exponent x + 1)"
    using assms(1) b(2) by (rule le_less_trans)
  then have 1: "e < binary_exponent x + 1"
    by (rule pow2_less_imp_less)
  have "(2::real) powi (binary_exponent x) < 2 powi (e + 1)"
    using b(1) assms(2) by (rule le_less_trans)
  then have 2: "binary_exponent x < e + 1"
    by (rule pow2_less_imp_less)
  from 1 2 show ?thesis by simp
qed

lemma round_half_even_of_int: "round_half_even (real_of_int n) = n"
  by (simp add: round_half_even_def)

lemma round_half_even_error: "\<bar>real_of_int (round_half_even y) - y\<bar> \<le> 1 / 2"
proof -
  define f where "f = \<lfloor>y\<rfloor>"
  have f: "real_of_int f \<le> y" "y < real_of_int f + 1"
    unfolding f_def by linarith+
  consider "y - real_of_int f < 1 / 2" | "1 / 2 < y - real_of_int f" | "y - real_of_int f = 1 / 2"
    by linarith
  then show ?thesis
  proof cases
    case 1
    then have "round_half_even y = f"
      by (simp add: round_half_even_def f_def)
    with 1 f show ?thesis by simp
  next
    case 2
    then have "round_half_even y = f + 1"
      by (simp add: round_half_even_def f_def)
    with 2 f show ?thesis by simp
  next
    case 3
    then have "round_half_even y = f \<or> round_half_even y = f + 1"
      by (simp add: round_half_even_def f_def Let_def)
    with 3 show ?thesis by auto
  qed
qed

text \<open>An integer of magnitude under \<open>2^53\<close> is a double.\<close>

lemma Number_exact:
  assumes "\<bar>q\<bar> < 2 ^ 53"
  shows "Number q = Finite (real_of_int q)"
proof (cases "q = 0")
  case True
  then show ?thesis
    by (simp add: Number_def round_double_def)
next
  case False
  define x where "x = real_of_int q"
  define e where "e = binary_exponent x"
  have x0: "x \<noteq> 0"
    using False by (simp add: x_def)
  note b = binary_exponent_bounds [OF x0, folded e_def]
  have x1: "1 \<le> \<bar>x\<bar>"
  proof -
    have "1 \<le> \<bar>q\<bar>"
      using False by simp
    then have "real_of_int 1 \<le> real_of_int \<bar>q\<bar>"
      by (rule of_int_le_iff [THEN iffD2])
    then show ?thesis
      by (simp add: x_def)
  qed
  have x53: "\<bar>x\<bar> < 2 powi 53"
  proof -
    have "real_of_int \<bar>q\<bar> < real_of_int (2 ^ 53)"
      using assms by (rule of_int_less_iff [THEN iffD2])
    then show ?thesis
      by (simp add: x_def)
  qed
  have "(2::real) powi 0 < 2 powi (e + 1)"
    using x1 b(2) by simp
  then have e0: "0 \<le> e"
    using pow2_less_imp_less [of 0 "e + 1"] by simp
  have "(2::real) powi e < 2 powi 53"
    using b(1) x53 by (rule le_less_trans)
  then have e52: "e \<le> 52"
    using pow2_less_imp_less [of e 53] by simp
  define k where "k = nat (52 - e)"
  have ek: "e - 52 = - int k"
    using e52 by (simp add: k_def)
  have mx: "max (e - 52) (- 1074) = - int k"
    using e0 ek by simp
  have ulp: "(2::real) powi (- int k) = 1 / 2 ^ k"
    by (simp only: power_int_minus_divide power_int_of_nat)
  have y: "x / (1 / 2 ^ k) = real_of_int (q * 2 ^ k)"
    by (simp add: x_def)
  have r: "real_of_int (round_half_even (x / (1 / 2 ^ k))) * (1 / 2 ^ k) = x"
    unfolding y round_half_even_of_int by (simp add: x_def)
  have small: "\<not> 2 ^ 1024 \<le> \<bar>x\<bar>"
  proof -
    have "\<bar>x\<bar> < 2 ^ 53"
      using x53 by simp
    also have "\<dots> \<le> (2::real) ^ 1024"
      by (intro power_increasing) simp_all
    finally show ?thesis by simp
  qed
  have "round_double x = Finite x"
    unfolding round_double_def Let_def e_def [symmetric] mx ulp r
    using x0 small by simp
  then show ?thesis
    by (simp add: Number_def x_def)
qed

text \<open>In the normal range the rounding error is at most \<open>2^-53\<close> of the value.\<close>

lemma round_double_error:
  assumes "2 powi (- 1022) \<le> \<bar>x\<bar>" "\<bar>x\<bar> \<le> 2 ^ 1023"
  shows "\<exists>v. round_double x = Finite v \<and> \<bar>v - x\<bar> \<le> \<bar>x\<bar> / 2 ^ 53"
proof -
  define e where "e = binary_exponent x"
  have "0 < (2::real) powi (- 1022)"
    by simp
  with assms(1) have "0 < \<bar>x\<bar>"
    by linarith
  then have x0: "x \<noteq> 0"
    by simp
  note b = binary_exponent_bounds [OF x0, folded e_def]
  have "(2::real) powi (- 1022) < 2 powi (e + 1)"
    using assms(1) b(2) by (rule le_less_trans)
  then have elo: "- 1022 \<le> e"
    using pow2_less_imp_less [of "- 1022" "e + 1"] by simp
  then have mx: "max (e - 52) (- 1074) = e - 52"
    by simp
  define ulp :: real where "ulp = 2 powi (e - 52)"
  have ulp_pos: "0 < ulp"
    by (simp add: ulp_def)
  define r where "r = real_of_int (round_half_even (x / ulp)) * ulp"
  have "r - x = (real_of_int (round_half_even (x / ulp)) - x / ulp) * ulp"
    using ulp_pos by (simp add: r_def algebra_simps)
  then have "\<bar>r - x\<bar> = \<bar>real_of_int (round_half_even (x / ulp)) - x / ulp\<bar> * ulp"
    using ulp_pos by (simp add: abs_mult)
  also have "\<dots> \<le> 1 / 2 * ulp"
    using round_half_even_error [of "x / ulp"] ulp_pos by (intro mult_right_mono) simp_all
  also have "\<dots> = 2 powi e / 2 ^ 53"
  proof -
    have "(2::real) powi (e - 52) = 2 powi e / 2 powi 52"
      by (rule power_int_diff) simp
    then show ?thesis
      by (simp add: ulp_def)
  qed
  also have "\<dots> \<le> \<bar>x\<bar> / 2 ^ 53"
    using b(1) by (intro divide_right_mono) simp_all
  finally have err: "\<bar>r - x\<bar> \<le> \<bar>x\<bar> / 2 ^ 53" .
  have "\<bar>r\<bar> \<le> \<bar>x\<bar> + \<bar>r - x\<bar>"
    by simp
  also have "\<dots> \<le> \<bar>x\<bar> + \<bar>x\<bar> / 2 ^ 53"
    using err by simp
  also have "\<dots> \<le> 2 ^ 1023 + 2 ^ 1023 / 2 ^ 53"
    using assms(2) by (intro add_mono divide_right_mono) simp_all
  also have "\<dots> < (2::real) ^ 1024"
    by simp
  finally have small: "\<not> 2 ^ 1024 \<le> \<bar>r\<bar>"
    by simp
  have "round_double x = Finite r"
    unfolding round_double_def Let_def e_def [symmetric] mx ulp_def [symmetric] r_def [symmetric]
    using x0 small by simp
  with err show ?thesis
    by blast
qed

lemma round_double_normal:
  assumes "2 powi e \<le> \<bar>x\<bar>" "\<bar>x\<bar> < 2 powi (e + 1)" "- 1022 \<le> e" "e \<le> 1022"
  shows "round_double x = Finite (real_of_int (round_half_even (x / 2 powi (e - 52))) * 2 powi (e - 52))"
proof -
  have be: "binary_exponent x = e"
    using assms(1,2) by (rule binary_exponent_eqI)
  have "(2::real) powi (- 1022) \<le> 2 powi e"
    using assms(3) by (intro power_int_increasing) simp_all
  then have lo: "2 powi (- 1022) \<le> \<bar>x\<bar>"
    using assms(1) by linarith
  have "(2::real) powi (e + 1) \<le> 2 powi 1023"
    using assms(4) by (intro power_int_increasing) simp_all
  then have hi: "\<bar>x\<bar> \<le> 2 ^ 1023"
    using assms(2) by simp
  obtain v where v: "round_double x = Finite v"
    using round_double_error [OF lo hi] by blast
  have x0: "x \<noteq> 0"
    using lo zero_less_power_int [of "2::real" "- 1022"] by linarith
  have mx: "max (e - 52) (- 1074) = e - 52"
    using assms(3) by simp
  show ?thesis
    using v x0 unfolding round_double_def Let_def be mx
    by (simp split: if_splits)
qed

section \<open>Profit and loss\<close>

lemma sdiv_pos_divisor:
  "0 < b \<Longrightarrow> a sdiv b = sgn a * (\<bar>a\<bar> div (b::int))"
  by (simp add: signed_divide_int_def)

lemma calculatePnL_value:
  "calculatePnL currentValue costBasis =
     Inr \<lparr>pnl = currentValue - costBasis,
          pnlPercent = (if costBasis > 0
            then number_div_100 (Number (((currentValue - costBasis) * 10000) sdiv costBasis))
            else Finite 0)\<rparr>"
  by (simp add: calculatePnL_def bigint_div_def Let_def)

lemma basisPoints_trunc_sdiv:
  assumes "0 < (c::int)"
  shows "(p * 10000) sdiv c = basisPoints_trunc p c"
proof -
  have "\<lfloor>real_of_int (10000 * \<bar>p\<bar>) / real_of_int c\<rfloor> = (10000 * \<bar>p\<bar>) div c"
    by (rule floor_divide_of_int_eq)
  then have "\<lfloor>10000 * \<bar>real_of_int p\<bar> / real_of_int c\<rfloor> = \<bar>p * 10000\<bar> div c"
    by (simp add: abs_mult mult.commute)
  moreover have "sgn (p * 10000) = sgn p"
    by (simp add: sgn_mult)
  ultimately show ?thesis
    using assms by (simp add: sdiv_pos_divisor basisPoints_trunc_def)
qed

text \<open>Truncation to whole basis points loses less than 0.01 of the percentage.\<close>

lemma basisPoints_trunc_close:
  assumes c: "0 < (c::int)"
  shows "\<bar>real_of_int (basisPoints_trunc p c) / 100 - 100 * real_of_int p / real_of_int c\<bar> < 1 / 100"
proof -
  define x where "x = 10000 * \<bar>real_of_int p\<bar> / real_of_int c"
  have val: "real_of_int (basisPoints_trunc p c) / 100
      = real_of_int (sgn p) * real_of_int \<lfloor>x\<rfloor> / 100"
    by (simp add: basisPoints_trunc_def x_def)
  have exact: "100 * real_of_int p / real_of_int c = real_of_int (sgn p) * x / 100"
  proof -
    have "real_of_int p = real_of_int (sgn p) * \<bar>real_of_int p\<bar>"
      by (simp add: sgn_if)
    then have "100 * real_of_int p / real_of_int c
        = 100 * (real_of_int (sgn p) * \<bar>real_of_int p\<bar>) / real_of_int c"
      by simp
    also have "\<dots> = real_of_int (sgn p) * x / 100"
      by (simp add: x_def)
    finally show ?thesis .
  qed
  define y where "y = real_of_int (sgn p) * (real_of_int \<lfloor>x\<rfloor> - x)"
  have d: "real_of_int (basisPoints_trunc p c) / 100 - 100 * real_of_int p / real_of_int c = y / 100"
    by (simp only: val exact y_def right_diff_distrib diff_divide_distrib)
  have "\<bar>y\<bar> < 1"
  proof -
    have "\<bar>real_of_int \<lfloor>x\<rfloor> - x\<bar> < 1"
      by linarith
    moreover have "\<bar>real_of_int (sgn p)\<bar> \<le> 1"
      by (simp add: sgn_if)
    ultimately show ?thesis
      by (simp add: y_def abs_mult sgn_if)
  qed
  then have "\<bar>y / 100\<bar> < 1 / 100"
    by simp
  then show ?thesis
    unfolding d .
qed

text \<open>
  While the basis points are under \<open>2^53\<close> in magnitude, their conversion is exact and
  the division by 100 is rounded once.
\<close>

lemma number_div_100_accuracy:
  assumes "\<bar>q\<bar> < 2 ^ 53"
  shows "\<exists>v. number_div_100 (Number q) = Finite v
           \<and> \<bar>v - real_of_int q / 100\<bar> \<le> \<bar>real_of_int q / 100\<bar> / 2 ^ 53"
proof (cases "q = 0")
  case True
  then show ?thesis
    by (simp add: number_div_100_def Number_exact round_double_def)
next
  case False
  define x where "x = real_of_int q / 100"
  have "1 \<le> \<bar>q\<bar>"
    using False by simp
  then have "real_of_int 1 \<le> real_of_int \<bar>q\<bar>"
    by (rule of_int_le_iff [THEN iffD2])
  then have q1: "1 \<le> \<bar>real_of_int q\<bar>"
    by simp
  have "real_of_int \<bar>q\<bar> < real_of_int (2 ^ 53)"
    using assms by (rule of_int_less_iff [THEN iffD2])
  then have q53: "\<bar>real_of_int q\<bar> < 2 ^ 53"
    by simp
  have "(2::real) powi (- 1022) \<le> 2 powi (- 7)"
    by (intro power_int_increasing) simp_all
  also have "\<dots> \<le> 1 / 100"
    by simp
  also have "\<dots> \<le> \<bar>x\<bar>"
    using q1 by (simp add: x_def)
  finally have lo: "2 powi (- 1022) \<le> \<bar>x\<bar>" .
  have "\<bar>x\<bar> \<le> 2 ^ 53"
    using q53 by (simp add: x_def)
  also have "\<dots> \<le> (2::real) ^ 1023"
    by (intro power_increasing) simp_all
  finally have hi: "\<bar>x\<bar> \<le> 2 ^ 1023" .
  from round_double_error [OF lo hi] show ?thesis
    using assms by (simp add: number_div_100_def Number_exact x_def)
qed

text \<open>
  Beyond \<open>2^53\<close> the conversion rounds as well; up to \<open>2^1023\<close> the two roundings together
  stay within three parts in \<open>2^53\<close> of the quotient.
\<close>

lemma number_div_100_bound:
  assumes "\<bar>q\<bar> \<le> 2 ^ 1023"
  shows "\<exists>v. number_div_100 (Number q) = Finite v
           \<and> \<bar>v - real_of_int q / 100\<bar> \<le> 3 * \<bar>real_of_int q / 100\<bar> / 2 ^ 53"
proof (cases "q = 0")
  case True
  then show ?thesis
    by (simp add: number_div_100_def Number_def round_double_def)
next
  case False
  define x where "x = real_of_int q"
  define d where "d = \<bar>x\<bar> / 2 ^ 53 / 100"
  have "1 \<le> \<bar>q\<bar>"
    using False by simp
  then have "real_of_int 1 \<le> real_of_int \<bar>q\<bar>"
    by (rule of_int_le_iff [THEN iffD2])
  then have x1: "1 \<le> \<bar>x\<bar>"
    by (simp add: x_def)
  have "real_of_int \<bar>q\<bar> \<le> real_of_int (2 ^ 1023)"
    using assms by (rule of_int_le_iff [THEN iffD2])
  then have hi: "\<bar>x\<bar> \<le> 2 ^ 1023"
    by (simp add: x_def)
  have "(2::real) powi (- 1022) \<le> 2 powi 0"
    by (intro power_int_increasing) simp_all
  then have "(2::real) powi (- 1022) \<le> 1"
    by simp
  with x1 have lo: "2 powi (- 1022) \<le> \<bar>x\<bar>"
    by linarith
  from round_double_error [OF lo hi] obtain w
    where w: "round_double x = Finite w" and werr: "\<bar>w - x\<bar> \<le> \<bar>x\<bar> / 2 ^ 53"
    by blast
  have small: "\<bar>x\<bar> / 2 ^ 53 \<le> \<bar>x\<bar> / 2"
    by (rule divide_left_mono) simp_all
  have wlo: "\<bar>x\<bar> / 2 \<le> \<bar>w\<bar>" and whi: "\<bar>w\<bar> \<le> 2 * \<bar>x\<bar>"
    using werr small by linarith+
  have "(2::real) powi (- 1022) \<le> 2 powi (- 8)"
    by (intro power_int_increasing) simp_all
  also have "\<dots> \<le> 1 / 2 / 100"
    by simp
  also have "\<dots> \<le> \<bar>w\<bar> / 100"
    using wlo x1 by simp
  finally have lo2: "2 powi (- 1022) \<le> \<bar>w / 100\<bar>"
    by simp
  have "\<bar>w\<bar> / 100 \<le> 2 * 2 ^ 1023 / 100"
    using whi hi by simp
  also have "\<dots> \<le> (2::real) ^ 1023"
    by simp
  finally have hi2: "\<bar>w / 100\<bar> \<le> 2 ^ 1023"
    by simp
  from round_double_error [OF lo2 hi2] obtain v
    where v: "round_double (w / 100) = Finite v"
      and verr: "\<bar>v - w / 100\<bar> \<le> \<bar>w / 100\<bar> / 2 ^ 53"
    by blast
  have "\<bar>w / 100\<bar> / 2 ^ 53 \<le> (2 * \<bar>x\<bar> / 100) / 2 ^ 53"
    using whi by (intro divide_right_mono) simp_all
  also have "\<dots> = 2 * d"
    by (simp add: d_def)
  finally have b: "\<bar>v - w / 100\<bar> \<le> 2 * d"
    using verr by linarith
  have "\<bar>w / 100 - x / 100\<bar> = \<bar>w - x\<bar> / 100"
    by (simp add: diff_divide_distrib [symmetric])
  also have "\<dots> \<le> \<bar>x\<bar> / 2 ^ 53 / 100"
    using werr by (intro divide_right_mono) simp_all
  finally have a: "\<bar>w / 100 - x / 100\<bar> \<le> d"
    by (simp add: d_def)
  from a b have "\<bar>v - x / 100\<bar> \<le> 3 * d"
    by linarith
  moreover have "3 * d = 3 * \<bar>x / 100\<bar> / 2 ^ 53"
    by (simp add: d_def)
  ultimately have "\<bar>v - x / 100\<bar> \<le> 3 * \<bar>x / 100\<bar> / 2 ^ 53"
    by simp
  moreover have "number_div_100 (Number q) = Finite v"
    using w v by (simp add: number_div_100_def Number_def x_def)
  ultimately show ?thesis
    unfolding x_def by blast
qed

lemma double_of_3333_percent:
  "number_div_100 (Number 3333) = Finite (2345390243441541 / 70368744177664)"
proof -
  have "round_double (3333 / 100) = Finite (2345390243441541 / 70368744177664)"
    by (subst round_double_normal [of 5]) (simp_all add: round_half_even_def)
  then show ?thesis
    by (simp add: number_div_100_def Number_exact)
qed

lemma double_of_large_percent:
  "number_div_100 (Number 90071992547409930100) = Finite 900719925474099328"
proof -
  have "Number 90071992547409930100 = Finite 90071992547409936384"
    unfolding Number_def
    by (subst round_double_normal [of 66]) (simp_all add: round_half_even_def)
  moreover have "round_double (90071992547409936384 / 100) = Finite 900719925474099328"
    by (subst round_double_normal [of 59]) (simp_all add: round_half_even_def)
  ultimately show ?thesis
    by (simp add: number_div_100_def)
qed

lemma double_of_128th: "round_double (100 * 1 / 12800) = Finite (1 / 128)"
  by (subst round_double_normal [of "- 7"]) (simp_all add: round_half_even_def)

text \<open>
  C7 as stated fails: the percentage is cut to whole basis points before it is divided
  by 100. A gain of 1 on a cost basis of 12800 is 1/128 percent, which is a double, and
  the function returns 0.
\<close>

theorem calculatePnL_percent_truncated:
  "calculatePnL 12801 12800 = Inr \<lparr>pnl = 1, pnlPercent = Finite 0\<rparr>
   \<and> round_double (100 * 1 / 12800) = Finite (1 / 128)
   \<and> Finite (1 / 128) \<noteq> Finite 0"
proof -
  have "calculatePnL 12801 12800 = Inr \<lparr>pnl = 1, pnlPercent = Finite 0\<rparr>"
    by (simp add: calculatePnL_value signed_divide_int_def number_div_100_def Number_exact
        round_double_def)
  then show ?thesis
    using double_of_128th by simp
qed

text \<open>
  C7, amended. For every current value and every cost basis \<^verbatim>\<open>calculatePnL\<close> returns
  without an error; \<open>pnl\<close> is the signed difference of current value and cost basis;
  \<open>pnlPercent\<close> is the number 0 when the cost basis is zero or negative. For a positive
  cost basis it is the number \<^verbatim>\<open>Number(bps) / 100\<close>, where \<open>bps\<close> is the percentage in
  whole basis points, \<open>10000 * pnl / costBasis\<close> truncated toward zero: the integer is
  rounded to a double and the quotient by 100 is rounded to a double. While \<open>|bps| < 2^53\<close>
  the result is finite, within \<open>|bps / 100| / 2^53\<close> of \<open>bps / 100\<close>, and differs
  from the exact percentage \<open>100 * pnl / costBasis\<close> by less than 0.01 plus that
  rounding error. While \<open>|bps| \<le> 2^1023\<close> the result is finite and within
  \<open>3 * |bps / 100| / 2^53\<close> of \<open>bps / 100\<close>.
\<close>

theorem calculatePnL_basis_points:
  "\<exists>r. calculatePnL currentValue costBasis = Inr r
     \<and> pnl r = currentValue - costBasis
     \<and> (costBasis \<le> 0 \<longrightarrow> pnlPercent r = Finite 0)
     \<and> (0 < costBasis \<longrightarrow>
          pnlPercent r = number_div_100 (Number (basisPoints_trunc (pnl r) costBasis))
          \<and> (\<bar>basisPoints_trunc (pnl r) costBasis\<bar> < 2 ^ 53 \<longrightarrow>
               (\<exists>v. pnlPercent r = Finite v
                  \<and> \<bar>v - real_of_int (basisPoints_trunc (pnl r) costBasis) / 100\<bar>
                       \<le> \<bar>real_of_int (basisPoints_trunc (pnl r) costBasis) / 100\<bar> / 2 ^ 53
                  \<and> \<bar>v - 100 * real_of_int (pnl r) / real_of_int costBasis\<bar>
                       < 1 / 100 + \<bar>real_of_int (basisPoints_trunc (pnl r) costBasis) / 100\<bar> / 2 ^ 53))
          \<and> (\<bar>basisPoints_trunc (pnl r) costBasis\<bar> \<le> 2 ^ 1023 \<longrightarrow>
               (\<exists>v. pnlPercent r = Finite v
                  \<and> \<bar>v - real_of_int (basisPoints_trunc (pnl r) costBasis) / 100\<bar>
                       \<le> 3 * \<bar>real_of_int (basisPoints_trunc (pnl r) costBasis) / 100\<bar> / 2 ^ 53)))"
proof -
  define p where "p = currentValue - costBasis"
  define bps where "bps = basisPoints_trunc p costBasis"
  define r where "r = \<lparr>pnl = p, pnlPercent = (if costBasis > 0
            then number_div_100 (Number ((p * 10000) sdiv costBasis)) else Finite 0)\<rparr>"
  have ret: "calculatePnL currentValue costBasis = Inr r"
    by (simp add: calculatePnL_value r_def p_def)
  have pnl_r: "pnl r = p"
    by (simp add: r_def)
  have diff: "pnl r = currentValue - costBasis"
    by (simp add: r_def p_def)
  have neg: "costBasis \<le> 0 \<longrightarrow> pnlPercent r = Finite 0"
    by (simp add: r_def)
  have pos: "pnlPercent r = number_div_100 (Number bps)
          \<and> (\<bar>bps\<bar> < 2 ^ 53 \<longrightarrow>
               (\<exists>v. pnlPercent r = Finite v
                  \<and> \<bar>v - real_of_int bps / 100\<bar> \<le> \<bar>real_of_int bps / 100\<bar> / 2 ^ 53
                  \<and> \<bar>v - 100 * real_of_int p / real_of_int costBasis\<bar>
                       < 1 / 100 + \<bar>real_of_int bps / 100\<bar> / 2 ^ 53))
          \<and> (\<bar>bps\<bar> \<le> 2 ^ 1023 \<longrightarrow>
               (\<exists>v. pnlPercent r = Finite v
                  \<and> \<bar>v - real_of_int bps / 100\<bar> \<le> 3 * \<bar>real_of_int bps / 100\<bar> / 2 ^ 53))"
    if c: "0 < costBasis"
  proof (intro conjI impI)
    show val: "pnlPercent r = number_div_100 (Number bps)"
      using c by (simp add: r_def bps_def basisPoints_trunc_sdiv)
    {
      assume "\<bar>bps\<bar> < 2 ^ 53"
      then obtain v where v: "number_div_100 (Number bps) = Finite v"
        and acc: "\<bar>v - real_of_int bps / 100\<bar> \<le> \<bar>real_of_int bps / 100\<bar> / 2 ^ 53"
        using number_div_100_accuracy by blast
      have "\<bar>real_of_int bps / 100 - 100 * real_of_int p / real_of_int costBasis\<bar> < 1 / 100"
        unfolding bps_def using c by (rule basisPoints_trunc_close)
      with acc have "\<bar>v - 100 * real_of_int p / real_of_int costBasis\<bar>
                       < 1 / 100 + \<bar>real_of_int bps / 100\<bar> / 2 ^ 53"
        by linarith
      with v acc val show "\<exists>v. pnlPercent r = Finite v
                  \<and> \<bar>v - real_of_int bps / 100\<bar> \<le> \<bar>real_of_int bps / 100\<bar> / 2 ^ 53
                  \<and> \<bar>v - 100 * real_of_int p / real_of_int costBasis\<bar>
                       < 1 / 100 + \<bar>real_of_int bps / 100\<bar> / 2 ^ 53"
        by (intro exI [of _ v]) simp
    }
    {
      assume "\<bar>bps\<bar> \<le> 2 ^ 1023"
      then obtain v where v: "number_div_100 (Number bps) = Finite v"
        and acc: "\<bar>v - real_of_int bps / 100\<bar> \<le> 3 * \<bar>real_of_int bps / 100\<bar> / 2 ^ 53"
        using number_div_100_bound by blast
      with val show "\<exists>v. pnlPercent r = Finite v
                  \<and> \<bar>v - real_of_int bps / 100\<bar> \<le> 3 * \<bar>real_of_int bps / 100\<bar> / 2 ^ 53"
        by (intro exI [of _ v]) simp
    }
  qed
  from pos have pos': "0 < costBasis \<longrightarrow>
          pnlPercent r = number_div_100 (Number (basisPoints_trunc (pnl r) costBasis))
          \<and> (\<bar>basisPoints_trunc (pnl r) costBasis\<bar> < 2 ^ 53 \<longrightarrow>
               (\<exists>v. pnlPercent r = Finite v
                  \<and> \<bar>v - real_of_int (basisPoints_trunc (pnl r) costBasis) / 100\<bar>
                       \<le> \<bar>real_of_int (basisPoints_trunc (pnl r) costBasis) / 100\<bar> / 2 ^ 53
                  \<and> \<bar>v - 100 * real_of_int (pnl r) / real_of_int costBasis\<bar>
                       < 1 / 100 + \<bar>real_of_int (basisPoints_trunc (pnl r) costBasis) / 100\<bar> / 2 ^ 53))
          \<and> (\<bar>basisPoints_trunc (pnl r) costBasis\<bar> \<le> 2 ^ 1023 \<longrightarrow>
               (\<exists>v. pnlPercent r = Finite v
                  \<and> \<bar>v - real_of_int (basisPoints_trunc (pnl r) costBasis) / 100\<bar>
                       \<le> 3 * \<bar>real_of_int (basisPoints_trunc (pnl r) costBasis) / 100\<bar> / 2 ^ 53))"
    unfolding bps_def pnl_r by (rule impI)
  from ret diff neg pos' show ?thesis
    by (intro exI [of _ r] conjI)
qed

theorem calculatePnL_basis_points_witness:
  "calculatePnL 4 3 = Inr \<lparr>pnl = 1, pnlPercent = Finite (2345390243441541 / 70368744177664)\<rparr>
   \<and> basisPoints_trunc 1 3 = 3333
   \<and> \<bar>(2345390243441541 / 70368744177664 :: real) - 3333 / 100\<bar> \<le> \<bar>3333 / 100\<bar> / 2 ^ 53
   \<and> \<bar>(2345390243441541 / 70368744177664 :: real) - 100 * 1 / 3\<bar> < 1 / 100 + \<bar>3333 / 100\<bar> / 2 ^ 53
   \<and> calculatePnL 900719925474099401 100
       = Inr \<lparr>pnl = 900719925474099301, pnlPercent = Finite 900719925474099328\<rparr>
   \<and> basisPoints_trunc 900719925474099301 100 = 90071992547409930100
   \<and> \<bar>(900719925474099328 :: real) - 90071992547409930100 / 100\<bar>
         \<le> 3 * \<bar>90071992547409930100 / 100\<bar> / 2 ^ 53
   \<and> calculatePnL 5 0 = Inr \<lparr>pnl = 5, pnlPercent = Finite 0\<rparr>"
proof -
  have bps: "basisPoints_trunc 1 3 = 3333"
    by (simp add: basisPoints_trunc_def)
  have a: "calculatePnL 4 3 = Inr \<lparr>pnl = 1, pnlPercent = Finite (2345390243441541 / 70368744177664)\<rparr>"
    by (simp add: calculatePnL_value signed_divide_int_def double_of_3333_percent)
  from calculatePnL_basis_points [of 4 3]
  have small: "\<bar>(2345390243441541 / 70368744177664 :: real) - 3333 / 100\<bar> \<le> \<bar>3333 / 100\<bar> / 2 ^ 53
      \<and> \<bar>(2345390243441541 / 70368744177664 :: real) - 100 * 1 / 3\<bar>
          < 1 / 100 + \<bar>3333 / 100\<bar> / 2 ^ 53"
    unfolding a by (simp add: bps)
  have bps': "basisPoints_trunc 900719925474099301 100 = 90071992547409930100"
    by (simp add: basisPoints_trunc_def)
  have b: "calculatePnL 900719925474099401 100
       = Inr \<lparr>pnl = 900719925474099301, pnlPercent = Finite 900719925474099328\<rparr>"
    by (simp add: calculatePnL_value signed_divide_int_def double_of_large_percent)
  from calculatePnL_basis_points [of 900719925474099401 100]
  have large: "\<bar>(900719925474099328 :: real) - 90071992547409930100 / 100\<bar>
         \<le> 3 * \<bar>90071992547409930100 / 100\<bar> / 2 ^ 53"
    unfolding b by (simp add: bps')
  from calculatePnL_basis_points [of 5 0]
  have c: "calculatePnL 5 0 = Inr \<lparr>pnl = 5, pnlPercent = Finite 0\<rparr>"
    by (auto simp add: calculatePnL_value)
  show ?thesis
    using a bps small b bps' large c by simp
qed

section \<open>Token amounts from liquidity\<close>

lemma Q96_pos: "0 < Q96"
  by (simp add: Q96_def)

lemma Q192_pos: "0 < Q192"
  by (simp add: Q192_def)

lemma smod_nonneg_pos: "0 \<le> a \<Longrightarrow> 0 < b \<Longrightarrow> a smod b = a mod (b::int)"
  by (simp add: signed_modulo_int_def sgn_if)

lemma bigint_mod_nonneg_pos: "0 \<le> a \<Longrightarrow> 0 < b \<Longrightarrow> bigint_mod a b = Inr (a mod b)"
  by (simp add: bigint_mod_def smod_nonneg_pos)

lemma floor_quotient: "\<lfloor>real_of_int a / real_of_int b\<rfloor> = a div b"
  by (rule floor_divide_of_int_eq)

lemma ceiling_quotient:
  assumes "0 < (b::int)"
  shows "\<lceil>real_of_int a / real_of_int b\<rceil> = (if a mod b = 0 then a div b else a div b + 1)"
proof -
  have "\<lceil>real_of_int a / real_of_int b\<rceil> = - ((- a) div b)"
    by (rule ceiling_divide_eq_div)
  also have "\<dots> = (if a mod b = 0 then a div b else a div b + 1)"
    using assms by (simp add: zdiv_zminus1_eq_if)
  finally show ?thesis .
qed

text \<open>The ceiling branch shared by both amount functions.\<close>

lemma ceil_branch:
  assumes "0 \<le> p" "0 < d"
  shows "bindE (bigint_mod p d) (\<lambda>r.
           if r = 0 then bigint_div p d
           else bindE (bigint_div p d) (\<lambda>q. Inr (q + 1)))
         = Inr \<lceil>real_of_int p / real_of_int d\<rceil>"
  using assms by (simp add: bigint_mod_nonneg_pos bigint_div_nonneg_pos ceiling_quotient)

lemma floor_branch:
  assumes "0 \<le> p" "0 < d"
  shows "bigint_div p d = Inr \<lfloor>real_of_int p / real_of_int d\<rfloor>"
  using assms by (simp add: bigint_div_nonneg_pos floor_quotient)

lemma amount0_spec_Q96:
  "amount0_spec L lo up r =
     (if r then \<lceil>real_of_int (L * (up - lo) * Q96) / real_of_int (up * lo)\<rceil>
      else \<lfloor>real_of_int (L * (up - lo) * Q96) / real_of_int (up * lo)\<rfloor>)"
  by (simp add: amount0_spec_def Q96_def)

lemma amount1_spec_Q96:
  "amount1_spec L lo up r =
     (if r then \<lceil>real_of_int (L * (up - lo)) / real_of_int Q96\<rceil>
      else \<lfloor>real_of_int (L * (up - lo)) / real_of_int Q96\<rfloor>)"
  by (simp add: amount1_spec_def Q96_def)

lemma getAmount0FromLiquidity_spec:
  assumes "0 \<le> L" "0 < lo" "lo < up"
  shows "getAmount0FromLiquidity lo up L r = Inr (amount0_spec L lo up r)"
proof (cases "L = 0")
  case True
  then show ?thesis
    by (simp add: getAmount0FromLiquidity_def amount0_spec_def)
next
  case False
  have d: "0 < up * lo"
    using assms by simp
  have n: "0 \<le> L * (up - lo) * Q96"
    using assms Q96_pos by simp
  have "getAmount0FromLiquidity lo up L True
      = Inr \<lceil>real_of_int (L * (up - lo) * Q96) / real_of_int (up * lo)\<rceil>"
    using False assms ceil_branch [OF n d]
    by (simp add: getAmount0FromLiquidity_def Let_def)
  moreover have "getAmount0FromLiquidity lo up L False
      = Inr \<lfloor>real_of_int (L * (up - lo) * Q96) / real_of_int (up * lo)\<rfloor>"
    using False assms floor_branch [OF n d]
    by (simp add: getAmount0FromLiquidity_def Let_def mulDiv_def)
  ultimately show ?thesis
    by (cases r) (simp_all only: amount0_spec_Q96 if_True if_False)
qed

lemma getAmount1FromLiquidity_spec:
  assumes "0 \<le> L" "lo < up"
  shows "getAmount1FromLiquidity lo up L r = Inr (amount1_spec L lo up r)"
proof (cases "L = 0")
  case True
  then show ?thesis
    by (simp add: getAmount1FromLiquidity_def amount1_spec_def)
next
  case False
  have n: "0 \<le> L * (up - lo)"
    using assms by simp
  have "getAmount1FromLiquidity lo up L True
      = Inr \<lceil>real_of_int (L * (up - lo)) / real_of_int Q96\<rceil>"
    using False assms ceil_branch [OF n Q96_pos]
    by (simp add: getAmount1FromLiquidity_def Let_def)
  moreover have "getAmount1FromLiquidity lo up L False
      = Inr \<lfloor>real_of_int (L * (up - lo)) / real_of_int Q96\<rfloor>"
    using False assms floor_branch [OF n Q96_pos]
    by (simp add: getAmount1FromLiquidity_def Let_def mulDiv_def)
  ultimately show ?thesis
    by (cases r) (simp_all only: amount1_spec_Q96 if_True if_False)
qed

lemma tokenAmounts_value:
  assumes "0 \<le> L" "0 < lo" "lo < up"
  shows "getTokenAmountsFromLiquidity_X96 L cur lo up r =
        Inr (if cur \<le> lo then \<lparr>token0Amount = amount0_spec L lo up r, token1Amount = 0\<rparr>
             else if up \<le> cur then \<lparr>token0Amount = 0, token1Amount = amount1_spec L lo up r\<rparr>
             else \<lparr>token0Amount = amount0_spec L cur up r,
                   token1Amount = amount1_spec L lo cur r\<rparr>)"
proof (cases "L = 0")
  case True
  then show ?thesis
    by (simp add: getTokenAmountsFromLiquidity_X96_def amount0_spec_def amount1_spec_def)
next
  case False
  consider (below) "cur \<le> lo" | (above) "lo < cur" "up \<le> cur" | (inside) "lo < cur" "cur < up"
    by linarith
  then show ?thesis
  proof cases
    case below
    with False assms show ?thesis
      by (simp add: getTokenAmountsFromLiquidity_X96_def getAmount0FromLiquidity_spec)
  next
    case above
    with False assms show ?thesis
      by (simp add: getTokenAmountsFromLiquidity_X96_def getAmount1FromLiquidity_spec)
  next
    case inside
    with assms have "0 < cur" by simp
    with False assms inside show ?thesis
      by (simp add: getTokenAmountsFromLiquidity_X96_def getAmount0FromLiquidity_spec
          getAmount1FromLiquidity_spec)
  qed
qed

lemma tokenAmounts_degenerate:
  assumes "L = 0 \<or> up \<le> lo"
  shows "getTokenAmountsFromLiquidity_X96 L cur lo up r = Inr \<lparr>token0Amount = 0, token1Amount = 0\<rparr>"
  using assms
  by (auto simp add: getTokenAmountsFromLiquidity_X96_def getAmount0FromLiquidity_def
      getAmount1FromLiquidity_def)

text \<open>
  C1. For liquidity \<open>L \<ge> 0\<close>, either rounding flag and bounds \<open>0 < lower < upper\<close>,
  \<^verbatim>\<open>getTokenAmountsFromLiquidity_X96\<close> returns: with the current price at or under the
  lower bound, the token0 amount over [lower, upper] and no token1; with the current
  price at or over the upper bound, no token0 and the token1 amount over [lower, upper];
  otherwise the token0 amount over [current, upper] and the token1 amount over
  [lower, current]. The amounts are \<open>L * (high - low) * 2^96 / (high * low)\<close> and
  \<open>L * (high - low) / 2^96\<close>, the last division rounded up when \<open>roundUp\<close> is set and down
  otherwise. For \<open>L = 0\<close> or bounds that do not increase it returns (0, 0) and no error.
\<close>

theorem getTokenAmountsFromLiquidity_X96_regimes:
  "(0 \<le> L \<and> 0 < lo \<and> lo < up \<longrightarrow>
      getTokenAmountsFromLiquidity_X96 L cur lo up r =
        Inr (if cur \<le> lo then \<lparr>token0Amount = amount0_spec L lo up r, token1Amount = 0\<rparr>
             else if up \<le> cur then \<lparr>token0Amount = 0, token1Amount = amount1_spec L lo up r\<rparr>
             else \<lparr>token0Amount = amount0_spec L cur up r,
                   token1Amount = amount1_spec L lo cur r\<rparr>))
   \<and> (L = 0 \<or> up \<le> lo \<longrightarrow>
      getTokenAmountsFromLiquidity_X96 L cur lo up r = Inr \<lparr>token0Amount = 0, token1Amount = 0\<rparr>)"
  using tokenAmounts_value [of L lo up cur r] tokenAmounts_degenerate [of L up lo cur r]
  by blast

theorem getTokenAmountsFromLiquidity_X96_regimes_witness:
  "(0::int) \<le> 10 ^ 18 \<and> (0::int) < 87150978765690771352898345369
   \<and> (87150978765690771352898345369::int) < 102996611268543638871607135436
   \<and> getTokenAmountsFromLiquidity_X96 (10 ^ 18) 95073795017117205112252740403
        87150978765690771352898345369 102996611268543638871607135436 False
      = Inr \<lparr>token0Amount = 64102564102564102, token1Amount = 100000000000000000\<rparr>
   \<and> getTokenAmountsFromLiquidity_X96 (10 ^ 18) 95073795017117205112252740403
        87150978765690771352898345369 102996611268543638871607135436 True
      = Inr \<lparr>token0Amount = 64102564102564103, token1Amount = 100000000000000001\<rparr>
   \<and> getTokenAmountsFromLiquidity_X96 (10 ^ 18) 95073795017117205112252740403
        102996611268543638871607135436 87150978765690771352898345369 True
      = Inr \<lparr>token0Amount = 0, token1Amount = 0\<rparr>"
  using getTokenAmountsFromLiquidity_X96_regimes [of "10 ^ 18" 87150978765690771352898345369 102996611268543638871607135436
               95073795017117205112252740403 False]
        getTokenAmountsFromLiquidity_X96_regimes [of "10 ^ 18" 87150978765690771352898345369 102996611268543638871607135436
               95073795017117205112252740403 True]
        getTokenAmountsFromLiquidity_X96_regimes [of "10 ^ 18" 102996611268543638871607135436 87150978765690771352898345369
               95073795017117205112252740403 True]
  by (simp add: amount0_spec_def amount1_spec_def)

section \<open>Liquidity from token amounts\<close>

lemma getLiquidityFromAmount0_div:
  assumes "0 < lo" "lo < up"
  shows "getLiquidityFromAmount0 lo up a0 False =
           Inr (if a0 \<le> 0 then 0 else (a0 * (lo * up)) div (Q96 * (up - lo)))"
proof (cases "a0 \<le> 0")
  case True
  then show ?thesis
    by (simp add: getLiquidityFromAmount0_def)
next
  case False
  have d: "0 < Q96 * (up - lo)"
    using assms Q96_pos by simp
  have n: "0 \<le> a0 * (lo * up)"
    using False assms by simp
  show ?thesis
    using False assms bigint_div_nonneg_pos [OF n d]
    by (simp add: getLiquidityFromAmount0_def Let_def)
qed

lemma getLiquidityFromAmount1_div:
  assumes "lo < up"
  shows "getLiquidityFromAmount1 lo up a1 False =
           Inr (if a1 \<le> 0 then 0 else (a1 * Q96) div (up - lo))"
proof (cases "a1 \<le> 0")
  case True
  then show ?thesis
    by (simp add: getLiquidityFromAmount1_def)
next
  case False
  have d: "0 < up - lo"
    using assms by simp
  have n: "0 \<le> a1 * Q96"
    using False Q96_pos by simp
  show ?thesis
    using False assms bigint_div_nonneg_pos [OF n d]
    by (simp add: getLiquidityFromAmount1_def Let_def)
qed

lemma liquidityFromAmount0_floor_div:
  "liquidityFromAmount0_floor lo up a0 = (if a0 \<le> 0 then 0 else (a0 * (lo * up)) div (Q96 * (up - lo)))"
  unfolding liquidityFromAmount0_floor_def floor_quotient Q96_def ..

lemma liquidityFromAmount1_floor_div:
  "liquidityFromAmount1_floor lo up a1 = (if a1 \<le> 0 then 0 else (a1 * Q96) div (up - lo))"
  unfolding liquidityFromAmount1_floor_def floor_quotient Q96_def ..

lemma getLiquidityFromAmount0_floor:
  "0 < lo \<Longrightarrow> lo < up \<Longrightarrow>
     getLiquidityFromAmount0 lo up a0 False = Inr (liquidityFromAmount0_floor lo up a0)"
  by (simp only: getLiquidityFromAmount0_div liquidityFromAmount0_floor_div)

lemma getLiquidityFromAmount1_floor:
  "lo < up \<Longrightarrow>
     getLiquidityFromAmount1 lo up a1 False = Inr (liquidityFromAmount1_floor lo up a1)"
  by (simp only: getLiquidityFromAmount1_div liquidityFromAmount1_floor_div)

lemma liquidityFromTokenAmounts_value:
  assumes "0 < lo" "lo < up"
  shows "getLiquidityFromTokenAmounts_X96 cur lo up a0 a1 =
     Inr (if cur \<le> lo then liquidityFromAmount0_floor lo up a0
          else if up \<le> cur then liquidityFromAmount1_floor lo up a1
          else min (liquidityFromAmount0_floor cur up a0) (liquidityFromAmount1_floor lo cur a1))"
proof -
  consider (below) "cur \<le> lo" | (above) "lo < cur" "up \<le> cur" | (inside) "lo < cur" "cur < up"
    by linarith
  then show ?thesis
  proof cases
    case below
    with assms show ?thesis
      by (simp add: getLiquidityFromTokenAmounts_X96_def getLiquidityFromAmount0_floor)
  next
    case above
    with assms show ?thesis
      by (simp add: getLiquidityFromTokenAmounts_X96_def getLiquidityFromAmount1_floor)
  next
    case inside
    with assms have "0 < cur" by simp
    with assms inside show ?thesis
      by (simp add: getLiquidityFromTokenAmounts_X96_def getLiquidityFromAmount0_floor
          getLiquidityFromAmount1_floor min_def)
  qed
qed

text \<open>
  C2. For every amount pair and bounds \<open>0 < lower < upper\<close>,
  \<^verbatim>\<open>getLiquidityFromTokenAmounts_X96\<close> returns: with the current price at or under the lower
  bound, the liquidity of the token0 amount alone over [lower, upper]; with the current
  price at or over the upper bound, the liquidity of the token1 amount alone over
  [lower, upper]; otherwise the smaller of the liquidity of the token0 amount over
  [current, upper] and that of the token1 amount over [lower, current]. Every division
  rounds down; the function takes no rounding flag.
\<close>

theorem getLiquidityFromTokenAmounts_X96_regimes:
  assumes "0 < lo" "lo < up"
  shows "getLiquidityFromTokenAmounts_X96 cur lo up a0 a1 =
     Inr (if cur \<le> lo then liquidityFromAmount0_floor lo up a0
          else if up \<le> cur then liquidityFromAmount1_floor lo up a1
          else min (liquidityFromAmount0_floor cur up a0) (liquidityFromAmount1_floor lo cur a1))"
  using assms by (rule liquidityFromTokenAmounts_value)

theorem getLiquidityFromTokenAmounts_X96_regimes_witness:
  "(0::int) < 87150978765690771352898345369
   \<and> (87150978765690771352898345369::int) < 102996611268543638871607135436
   \<and> getLiquidityFromTokenAmounts_X96 95073795017117205112252740403
        87150978765690771352898345369 102996611268543638871607135436
        64102564102564102 100000000000000000 = Inr 999999999999999991
   \<and> getLiquidityFromTokenAmounts_X96 79228162514264337593543950336
        87150978765690771352898345369 102996611268543638871607135436
        139860139860139860 0 = Inr 999999999999999998
   \<and> getLiquidityFromTokenAmounts_X96 110919427519970072630961530470
        87150978765690771352898345369 102996611268543638871607135436
        0 199999999999999999 = Inr 999999999999999995"
  using getLiquidityFromTokenAmounts_X96_regimes [of 87150978765690771352898345369
          102996611268543638871607135436 95073795017117205112252740403
          64102564102564102 100000000000000000]
        getLiquidityFromTokenAmounts_X96_regimes [of 87150978765690771352898345369
          102996611268543638871607135436 79228162514264337593543950336
          139860139860139860 0]
        getLiquidityFromTokenAmounts_X96_regimes [of 87150978765690771352898345369
          102996611268543638871607135436 110919427519970072630961530470
          0 199999999999999999]
  by (simp add: liquidityFromAmount0_floor_def liquidityFromAmount1_floor_def)

section \<open>Round trip from liquidity to amounts and back\<close>

lemma div_le_of_le_mult:
  assumes "x \<le> L * d" "0 < (d::int)"
  shows "x div d \<le> L"
proof -
  have "x div d \<le> (L * d) div d"
    using assms by (intro zdiv_mono1) simp_all
  also have "\<dots> = L"
    using assms by simp
  finally show ?thesis .
qed

lemma roundTrip0:
  assumes "0 \<le> L" "0 < lo" "lo < up"
  shows "liquidityFromAmount0_floor lo up (amount0_spec L lo up False) \<le> L"
    and "0 \<le> liquidityFromAmount0_floor lo up (amount0_spec L lo up False)"
proof -
  define a0 where "a0 = (L * (up - lo) * Q96) div (up * lo)"
  have a0: "amount0_spec L lo up False = a0"
    by (simp only: amount0_spec_Q96 if_False floor_quotient a0_def)
  have d: "0 < up * lo" "0 < Q96 * (up - lo)"
    using assms Q96_pos by simp_all
  have "a0 * (up * lo) \<le> L * (up - lo) * Q96"
    unfolding a0_def using d(1) by (metis div_mult_mod_eq le_add_same_cancel1 pos_mod_sign)
  then have le: "a0 * (lo * up) \<le> L * (Q96 * (up - lo))"
    by (simp add: mult.commute mult.left_commute)
  have nn: "0 \<le> a0"
    unfolding a0_def using assms Q96_pos d(1) by (intro pos_imp_zdiv_nonneg_iff [THEN iffD2]) simp_all
  show "liquidityFromAmount0_floor lo up (amount0_spec L lo up False) \<le> L"
    using div_le_of_le_mult [OF le d(2)] assms(1)
    by (simp add: a0 liquidityFromAmount0_floor_div)
  have "0 \<le> (a0 * (lo * up)) div (Q96 * (up - lo))"
    using nn assms d(2) by (intro pos_imp_zdiv_nonneg_iff [THEN iffD2]) simp_all
  then show "0 \<le> liquidityFromAmount0_floor lo up (amount0_spec L lo up False)"
    by (simp add: a0 liquidityFromAmount0_floor_div)
qed

lemma roundTrip1:
  assumes "0 \<le> L" "lo < up"
  shows "liquidityFromAmount1_floor lo up (amount1_spec L lo up False) \<le> L"
    and "0 \<le> liquidityFromAmount1_floor lo up (amount1_spec L lo up False)"
proof -
  define a1 where "a1 = (L * (up - lo)) div Q96"
  have a1: "amount1_spec L lo up False = a1"
    by (simp only: amount1_spec_Q96 if_False floor_quotient a1_def)
  have d: "0 < up - lo"
    using assms by simp
  have le: "a1 * Q96 \<le> L * (up - lo)"
    unfolding a1_def using Q96_pos by (metis div_mult_mod_eq le_add_same_cancel1 pos_mod_sign)
  have nn: "0 \<le> a1"
    unfolding a1_def using assms Q96_pos by (intro pos_imp_zdiv_nonneg_iff [THEN iffD2]) simp_all
  show "liquidityFromAmount1_floor lo up (amount1_spec L lo up False) \<le> L"
    using div_le_of_le_mult [OF le d] assms(1)
    by (simp add: a1 liquidityFromAmount1_floor_div)
  have "0 \<le> (a1 * Q96) div (up - lo)"
    using nn d Q96_pos by (intro pos_imp_zdiv_nonneg_iff [THEN iffD2]) simp_all
  then show "0 \<le> liquidityFromAmount1_floor lo up (amount1_spec L lo up False)"
    by (simp add: a1 liquidityFromAmount1_floor_div)
qed

text \<open>
  C3. For liquidity \<open>L \<ge> 0\<close>, a current price \<open>> 0\<close> and bounds \<open>0 < lower < upper\<close>: the
  floor-rounded amounts of \<^verbatim>\<open>getTokenAmountsFromLiquidity_X96\<close>, fed back into
  \<^verbatim>\<open>getLiquidityFromTokenAmounts_X96\<close> at the same prices, give a liquidity that is at most
  \<open>L\<close> (and not negative); neither call raises.
\<close>

theorem liquidity_roundTrip_never_gains:
  assumes "0 \<le> L" "0 < cur" "0 < lo" "lo < up"
  shows "\<exists>amounts liquidity.
           getTokenAmountsFromLiquidity_X96 L cur lo up False = Inr amounts
         \<and> getLiquidityFromTokenAmounts_X96 cur lo up (token0Amount amounts) (token1Amount amounts)
             = Inr liquidity
         \<and> liquidity \<le> L \<and> 0 \<le> liquidity"
proof -
  have amts: "getTokenAmountsFromLiquidity_X96 L cur lo up False =
        Inr (if cur \<le> lo then \<lparr>token0Amount = amount0_spec L lo up False, token1Amount = 0\<rparr>
             else if up \<le> cur then \<lparr>token0Amount = 0, token1Amount = amount1_spec L lo up False\<rparr>
             else \<lparr>token0Amount = amount0_spec L cur up False,
                   token1Amount = amount1_spec L lo cur False\<rparr>)"
    using assms tokenAmounts_value [of L lo up cur False] by simp
  consider (below) "cur \<le> lo" | (above) "lo < cur" "up \<le> cur" | (inside) "lo < cur" "cur < up"
    by linarith
  then show ?thesis
  proof cases
    case below
    with assms amts roundTrip0 [of L lo up] show ?thesis
      by (simp add: liquidityFromTokenAmounts_value)
  next
    case above
    with assms amts roundTrip1 [of L lo up] show ?thesis
      by (simp add: liquidityFromTokenAmounts_value)
  next
    case inside
    with assms amts roundTrip0 [of L cur up] roundTrip1 [of L lo cur] show ?thesis
      by (simp add: liquidityFromTokenAmounts_value min_def)
  qed
qed

theorem liquidity_roundTrip_never_gains_witness:
  "getTokenAmountsFromLiquidity_X96 (10 ^ 18) 95073795017117205112252740403
        87150978765690771352898345369 102996611268543638871607135436 False
      = Inr \<lparr>token0Amount = 64102564102564102, token1Amount = 100000000000000000\<rparr>
   \<and> getLiquidityFromTokenAmounts_X96 95073795017117205112252740403
        87150978765690771352898345369 102996611268543638871607135436
        64102564102564102 100000000000000000 = Inr 999999999999999991
   \<and> (999999999999999991::int) \<le> 10 ^ 18"
proof -
  obtain amounts liquidity where
    a: "getTokenAmountsFromLiquidity_X96 (10 ^ 18) 95073795017117205112252740403
          87150978765690771352898345369 102996611268543638871607135436 False = Inr amounts"
    and l: "getLiquidityFromTokenAmounts_X96 95073795017117205112252740403
          87150978765690771352898345369 102996611268543638871607135436
          (token0Amount amounts) (token1Amount amounts) = Inr liquidity"
    and le: "liquidity \<le> 10 ^ 18"
    using liquidity_roundTrip_never_gains [of "10 ^ 18" 95073795017117205112252740403
        87150978765690771352898345369 102996611268543638871607135436]
    by auto
  have a': "amounts = \<lparr>token0Amount = 64102564102564102, token1Amount = 100000000000000000\<rparr>"
    using a by (simp add: tokenAmounts_value amount0_spec_def amount1_spec_def)
  have l': "liquidity = 999999999999999991"
    using l unfolding a'
    by (simp add: liquidityFromTokenAmounts_value liquidityFromAmount0_floor_def
        liquidityFromAmount1_floor_def)
  show ?thesis
    using a l le unfolding a' l' by simp
qed

section \<open>Liquidity from an investment budget\<close>

lemma K_inToken1_spec_div: "K_inToken1_spec B A S = (S - B) + (S * (A - S)) div A"
  unfolding K_inToken1_spec_def floor_quotient ..

lemma K_inToken0_spec_div:
  "K_inToken0_spec B A S = (Q192 * (A - S)) div (A * S) + (Q192 * (S - B)) div (S * S)"
  unfolding K_inToken0_spec_def floor_quotient Q192_def ..

lemma budgetInQuote_spec_div:
  "budgetInQuote_spec b q isQ0 S =
     q + (if isQ0 then (b * Q192) div (S * S) else (b * S * S) div Q192)"
  unfolding budgetInQuote_spec_def floor_quotient Q192_def ..

lemma investmentLiquidity_spec_div:
  "investmentLiquidity_spec b q isQ0 B A S =
     (let K = (if isQ0 then K_inToken0_spec B A S else K_inToken1_spec B A S);
          budget = budgetInQuote_spec b q isQ0 S
      in if K \<le> 0 then 0 else (budget * Q96) div K)"
  unfolding investmentLiquidity_spec_def floor_quotient Q96_def ..

lemma totalBudgetInQuote_spec:
  assumes "0 \<le> b" "0 < S"
  shows "totalBudgetInQuote b q isQ0 S = Inr (budgetInQuote_spec b q isQ0 S)"
proof -
  have "0 \<le> b * Q192" "0 < S * S" "0 \<le> b * S * S"
    using assms Q192_pos by simp_all
  then show ?thesis
    using Q192_pos
    by (simp add: totalBudgetInQuote_def budgetInQuote_spec_div bigint_div_nonneg_pos)
qed

lemma budgetInQuote_spec_nonneg:
  assumes "0 \<le> b" "0 \<le> q" "0 < S"
  shows "0 \<le> budgetInQuote_spec b q isQ0 S"
proof -
  have "0 \<le> (b * Q192) div (S * S)"
    using assms Q192_pos by (intro pos_imp_zdiv_nonneg_iff [THEN iffD2]) simp_all
  moreover have "0 \<le> (b * S * S) div Q192"
    using assms Q192_pos by (intro pos_imp_zdiv_nonneg_iff [THEN iffD2]) simp_all
  ultimately show ?thesis
    using assms by (simp add: budgetInQuote_spec_div)
qed

lemma K_Q96_inToken1_spec:
  assumes "0 < B" "B < S" "S < A"
  shows "K_Q96_inToken1 B A S = Inr (K_inToken1_spec B A S)"
proof -
  have "0 \<le> S * (A - S)" "0 < A"
    using assms by simp_all
  then show ?thesis
    using assms by (simp add: K_Q96_inToken1_def K_inToken1_spec_div bigint_div_nonneg_pos)
qed

lemma K_Q96_inToken0_spec:
  assumes "0 < B" "B < S" "S < A"
  shows "K_Q96_inToken0 B A S = Inr (K_inToken0_spec B A S)"
proof -
  have "0 \<le> Q192 * (A - S)" "0 < A * S" "0 \<le> Q192 * (S - B)" "0 < S * S"
    using assms Q192_pos by simp_all
  then show ?thesis
    using assms by (simp add: K_Q96_inToken0_def K_inToken0_spec_div bigint_div_nonneg_pos)
qed

lemma investment_in_range:
  assumes amounts: "0 \<le> b" "0 \<le> q"
    and range: "0 < min lo up" "min lo up < S" "S < max lo up"
  shows "getLiquidityFromInvestmentAmounts b bd q qd isQ0 lo up S =
           Inr (investmentLiquidity_spec b q isQ0 (min lo up) (max lo up) S)"
proof -
  define A where "A = max lo up"
  define B where "B = min lo up"
  have AB: "(if up > lo then up else lo) = A" "(if up > lo then lo else up) = B"
    by (simp_all add: A_def B_def max_def min_def)
  have r: "0 < B" "B < S" "S < A"
    using range by (simp_all only: A_def B_def)
  then have S: "0 < S"
    by simp
  define K where "K = (if isQ0 then K_inToken0_spec B A S else K_inToken1_spec B A S)"
  define budget where "budget = budgetInQuote_spec b q isQ0 S"
  have Kc: "(if isQ0 then K_Q96_inToken0 B A S else K_Q96_inToken1 B A S) = Inr K"
    using r by (simp add: K_def K_Q96_inToken0_spec K_Q96_inToken1_spec)
  have bud: "totalBudgetInQuote b q isQ0 S = Inr budget"
    using amounts S by (simp add: budget_def totalBudgetInQuote_spec)
  have bnn: "0 \<le> budget"
    using amounts S by (simp add: budget_def budgetInQuote_spec_nonneg)
  have spec: "investmentLiquidity_spec b q isQ0 B A S = (if K \<le> 0 then 0 else (budget * Q96) div K)"
    by (simp add: investmentLiquidity_spec_div K_def budget_def)
  show ?thesis
  proof (cases "b \<le> 0 \<and> q \<le> 0")
    case True
    with amounts have z: "b = 0" "q = 0" by simp_all
    then have "budget = 0"
      by (simp add: budget_def budgetInQuote_spec_div)
    with True show ?thesis
      by (simp add: getLiquidityFromInvestmentAmounts_def spec A_def [symmetric] B_def [symmetric])
  next
    case False
    then have g: "\<not> (b \<le> 0 \<and> q \<le> 0)" .
    have "getLiquidityFromInvestmentAmounts b bd q qd isQ0 lo up S =
            (if K \<le> 0 then Inr 0 else bigint_div (budget * Q96) K)"
      unfolding getLiquidityFromInvestmentAmounts_def Let_def AB if_not_P [OF g]
      using r by (simp add: bud Kc)
    also have "\<dots> = Inr (if K \<le> 0 then 0 else (budget * Q96) div K)"
      using bnn Q96_pos by (simp add: bigint_div_nonneg_pos)
    finally show ?thesis
      by (simp add: spec A_def [symmetric] B_def [symmetric])
  qed
qed

text \<open>
  C4. For amounts that are not negative and a current price strictly inside the range
  \<open>B < S < A\<close>, where \<open>B\<close> is the smaller and \<open>A\<close> the larger of the two bounds passed
  (in either order) and \<open>B > 0\<close>, \<^verbatim>\<open>getLiquidityFromInvestmentAmounts\<close> returns the
  budget times \<open>2^96\<close> over \<open>K\<close>, rounded down, with
  \<open>K = (S - B) + floor (S * (A - S) / A)\<close> when the quote token is token1 and
  \<open>K = floor (2^192 * (A - S) / (A * S)) + floor (2^192 * (S - B) / S^2)\<close> when it is
  token0; the budget is the quote amount plus the base amount converted at \<open>S\<close>.
  Whenever \<open>K \<le> 0\<close> the result is zero liquidity and no error.
\<close>

theorem getLiquidityFromInvestmentAmounts_in_range:
  assumes "0 \<le> baseAmount" "0 \<le> quoteAmount"
    and "0 < min lo up" "min lo up < S" "S < max lo up"
  shows "getLiquidityFromInvestmentAmounts baseAmount bd quoteAmount qd isQuoteToken0 lo up S =
           Inr (investmentLiquidity_spec baseAmount quoteAmount isQuoteToken0 (min lo up) (max lo up) S)"
  using assms by (rule investment_in_range)

theorem getLiquidityFromInvestmentAmounts_in_range_witness:
  "getLiquidityFromInvestmentAmounts 500000000000000000 0 200000000000000000 0 False
      87150978765690771352898345369 102996611268543638871607135436
      95073795017117205112252740403 = Inr 4783999999999999994
   \<and> getLiquidityFromInvestmentAmounts 500000000000000000 0 200000000000000000 0 True
      102996611268543638871607135436 87150978765690771352898345369
      95073795017117205112252740403 = Inr 4097599999999999998
   \<and> K_inToken0_spec (2 ^ 159 - 1) (2 ^ 159 + 1) (2 ^ 159) = 0
   \<and> getLiquidityFromInvestmentAmounts 1 0 0 0 True (2 ^ 159 - 1) (2 ^ 159 + 1) (2 ^ 159) = Inr 0"
  using getLiquidityFromInvestmentAmounts_in_range [of 500000000000000000 200000000000000000
          87150978765690771352898345369 102996611268543638871607135436
          95073795017117205112252740403 0 0 False]
        getLiquidityFromInvestmentAmounts_in_range [of 500000000000000000 200000000000000000
          102996611268543638871607135436 87150978765690771352898345369
          95073795017117205112252740403 0 0 True]
        getLiquidityFromInvestmentAmounts_in_range [of 1 0 "2 ^ 159 - 1" "2 ^ 159 + 1" "2 ^ 159" 0 0 True]
  by (simp add: investmentLiquidity_spec_def K_inToken0_spec_def K_inToken1_spec_def
      budgetInQuote_spec_def)

text \<open>
  C10. \<^verbatim>\<open>getLiquidityFromInvestmentAmounts\<close> gives the same result, value or error, when its
  lower and upper bound arguments are exchanged: it takes the larger of the two as the
  upper bound and the smaller as the lower bound before anything else depends on them.
\<close>

theorem getLiquidityFromInvestmentAmounts_swap_bounds:
  "getLiquidityFromInvestmentAmounts b bd q qd isQ0 lo up S =
   getLiquidityFromInvestmentAmounts b bd q qd isQ0 up lo S"
proof -
  consider "lo < up" | "lo = up" | "up < lo"
    by linarith
  then show ?thesis
    by cases (simp_all add: getLiquidityFromInvestmentAmounts_def)
qed

section \<open>Rejection of a price that is not positive\<close>

lemma priceToSqrtRatioX96_nonpositive:
  "pr \<le> 0 \<Longrightarrow> priceToSqrtRatioX96 lib b q d pr = Inl (Error ''price must be a positive bigint'')"
  by (simp add: priceToSqrtRatioX96_def)

lemma priceToTick_nonpositive:
  "pr \<le> 0 \<Longrightarrow> priceToTick lib pr sp b q d = Inl (Error ''price must be a positive bigint'')"
  by (simp add: priceToTick_def priceToSqrtRatioX96_nonpositive)


lemma priceToSqrtRatioX96_positive:
  assumes "0 < pr"
  shows "priceToSqrtRatioX96 lib b q d pr =
           encodeSqrtRatioX96 lib (if b < q then pr else 10 ^ d) (if b < q then 10 ^ d else pr)"
  using assms by (simp add: priceToSqrtRatioX96_def Let_def)



section \<open>The PnL curve\<close>

lemma bindE_eq_Inr: "bindE m f = Inr v \<longleftrightarrow> (\<exists>a. m = Inr a \<and> f a = Inr v)"
  by (cases m) simp_all

lemma mapE_Inr:
  "mapE f xs = Inr ys \<Longrightarrow> length ys = length xs \<and> (\<forall>i<length xs. f (xs ! i) = Inr (ys ! i))"
proof (induction xs arbitrary: ys)
  case Nil
  then show ?case by simp
next
  case (Cons x xs)
  from Cons.prems obtain y ys' where y: "f x = Inr y" and ys': "mapE f xs = Inr ys'"
    and ys: "ys = y # ys'"
    by (auto simp add: bindE_eq_Inr)
  from Cons.IH [OF ys'] have len: "length ys' = length xs"
    and nth: "\<forall>i<length xs. f (xs ! i) = Inr (ys' ! i)"
    by simp_all
  show ?case
  proof (intro conjI allI impI)
    show "length ys = length (x # xs)"
      using len ys by simp
  next
    fix i assume "i < length (x # xs)"
    then show "f ((x # xs) ! i) = Inr (ys ! i)"
      using y nth ys by (cases i) simp_all
  qed
qed

lemma mapE_constant:
  "(\<forall>x\<in>set xs. f x = Inr y) \<Longrightarrow> mapE f xs = Inr (replicate (length xs) y)"
  by (induction xs) simp_all

lemma priceToTick_positive: "priceToTick lib pr sp b q d = Inr t \<Longrightarrow> 0 < pr"
  using priceToTick_nonpositive [of pr lib sp b q d] by (cases "0 < pr") simp_all

lemma pnlCurvePoint_Inr:
  assumes "pnlCurvePoint lib L tickL tickU cb b q d sp rng step b0 i = Inr pt"
  shows "price pt = min_price rng + i * step"
    and "\<exists>tick. priceToTick lib (price pt) sp b q d = Inr tick
           \<and> phase pt = determinePhase tick tickL tickU"
  using assms by (auto simp add: pnlCurvePoint_def Let_def bindE_eq_Inr)

lemma pnlCurvePoint_nonpositive:
  "min_price rng + i * step \<le> 0 \<Longrightarrow>
     pnlCurvePoint lib L tickL tickU cb b q d sp rng step b0 i
       = Inl (Error ''price must be a positive bigint'')"
  by (simp add: pnlCurvePoint_def Let_def priceToTick_nonpositive)

lemma generatePnLCurve_150:
  "generatePnLCurve lib L tickL tickU cb b q d sp rng 150 =
     mapE (pnlCurvePoint lib L tickL tickU cb b q d sp rng
             ((max_price rng - min_price rng) sdiv 150) (b < q)) [0..150]"
  by (simp add: generatePnLCurve_def bigint_div_def Let_def)

lemma generatePnLCurve_nonpositive_min:
  assumes "min_price rng \<le> 0"
  shows "generatePnLCurve lib L tickL tickU cb b q d sp rng 150
           = Inl (Error ''price must be a positive bigint'')"
proof -
  have "[0..150] = 0 # [1..(150::int)]"
    by (simp add: upto_rec1)
  then show ?thesis
    using assms by (simp add: generatePnLCurve_150 pnlCurvePoint_nonpositive)
qed

lemma curve_points:
  assumes "generatePnLCurve lib L tickL tickU cb b q d sp rng 150 = Inr points"
  shows "length points = 151"
    and "\<forall>i<151. pnlCurvePoint lib L tickL tickU cb b q d sp rng
             ((max_price rng - min_price rng) sdiv 150) (b < q) (int i) = Inr (points ! i)"
proof -
  from assms mapE_Inr have m: "length points = length [0..(150::int)]"
    "\<forall>i<length [0..(150::int)]. pnlCurvePoint lib L tickL tickU cb b q d sp rng
             ((max_price rng - min_price rng) sdiv 150) (b < q) ([0..150] ! i) = Inr (points ! i)"
    unfolding generatePnLCurve_150 by blast+
  show "length points = 151"
    using m(1) by simp
  show "\<forall>i<151. pnlCurvePoint lib L tickL tickU cb b q d sp rng
             ((max_price rng - min_price rng) sdiv 150) (b < q) (int i) = Inr (points ! i)"
  proof (intro allI impI)
    fix i :: nat assume i: "i < 151"
    then have "[0..(150::int)] ! i = int i"
      by simp
    moreover have "i < length [0..(150::int)]"
      using i by simp
    ultimately show "pnlCurvePoint lib L tickL tickU cb b q d sp rng
             ((max_price rng - min_price rng) sdiv 150) (b < q) (int i) = Inr (points ! i)"
      using m(2) by metis
  qed
qed

lemma determinePhase_mono:
  "t \<le> t' \<Longrightarrow> phase_rank (determinePhase t tickL tickU) \<le> phase_rank (determinePhase t' tickL tickU)"
  by (auto simp add: determinePhase_def phase_rank_def)

lemma step_facts_div:
  fixes pmin pmax :: int
  assumes "pmin < pmax"
  defines "s \<equiv> (pmax - pmin) div 150"
  shows "0 \<le> s"
    and "pmin + 150 * s \<le> pmax"
    and "pmax - (pmin + 150 * s) < 150"
    and "pmin + 150 * s = pmax \<longleftrightarrow> 150 dvd (pmax - pmin)"
    and "0 < s \<longleftrightarrow> 150 \<le> pmax - pmin"
proof -
  define e where "e = pmax - pmin"
  define r where "r = e mod 150"
  have e: "e = 150 * s + r"
    by (simp add: s_def r_def e_def)
  have r: "0 \<le> r" "r < 150"
    by (simp_all add: r_def)
  have epos: "0 < e"
    using assms(1) by (simp add: e_def)
  show "0 \<le> s"
    using e r epos by linarith
  show "pmin + 150 * s \<le> pmax" "pmax - (pmin + 150 * s) < 150"
    using e r by (simp_all add: e_def)
  have "pmin + 150 * s = pmax \<longleftrightarrow> r = 0"
    using e by (simp add: e_def) linarith
  also have "\<dots> \<longleftrightarrow> 150 dvd e"
    by (simp add: r_def dvd_eq_mod_eq_0)
  finally show "pmin + 150 * s = pmax \<longleftrightarrow> 150 dvd (pmax - pmin)"
    by (simp add: e_def)
  show "0 < s \<longleftrightarrow> 150 \<le> pmax - pmin"
    using e r by (simp add: e_def) linarith
qed

lemma step_sdiv:
  fixes pmin pmax :: int
  assumes "pmin < pmax"
  shows "(pmax - pmin) sdiv 150 = (pmax - pmin) div 150"
  using assms by (simp add: sdiv_nonneg_pos)

lemma curve_prices:
  assumes "generatePnLCurve lib L tickL tickU cb b q d sp \<lparr>min_price = pmin, max_price = pmax\<rparr> 150
             = Inr points"
    and "i < 151"
  shows "price (points ! i) = pmin + int i * ((pmax - pmin) sdiv 150)"
    and "\<exists>tick. priceToTick lib (price (points ! i)) sp b q d = Inr tick
           \<and> phase (points ! i) = determinePhase tick tickL tickU"
proof -
  have pt: "pnlCurvePoint lib L tickL tickU cb b q d sp \<lparr>min_price = pmin, max_price = pmax\<rparr>
      ((pmax - pmin) sdiv 150) (b < q) (int i) = Inr (points ! i)"
    using curve_points(2) [OF assms(1)] assms(2) by simp
  show "price (points ! i) = pmin + int i * ((pmax - pmin) sdiv 150)"
    using pnlCurvePoint_Inr(1) [OF pt] by simp
  show "\<exists>tick. priceToTick lib (price (points ! i)) sp b q d = Inr tick
           \<and> phase (points ! i) = determinePhase tick tickL tickU"
    using pnlCurvePoint_Inr(2) [OF pt] .
qed

lemma curve_min_positive:
  assumes ret: "generatePnLCurve lib L tickL tickU cb b q d sp \<lparr>min_price = pmin, max_price = pmax\<rparr> 150
             = Inr points"
  shows "0 < pmin"
proof -
  obtain tick where "priceToTick lib (price (points ! 0)) sp b q d = Inr tick"
    using curve_prices(2) [OF ret, of 0] by auto
  then have "0 < price (points ! 0)"
    by (rule priceToTick_positive)
  then show ?thesis
    using curve_prices(1) [OF ret, of 0] by simp
qed

lemma curve_price_range:
  assumes ret: "generatePnLCurve lib L tickL tickU cb b q d sp \<lparr>min_price = pmin, max_price = pmax\<rparr> 150
             = Inr points"
    and lt: "pmin < pmax"
  shows "price (points ! 0) = pmin"
    and "price (points ! 150) \<le> pmax"
    and "pmax - price (points ! 150) < 150"
    and "price (points ! 150) = pmax \<longleftrightarrow> 150 dvd (pmax - pmin)"
    and "\<forall>i j. i \<le> j \<and> j < 151 \<longrightarrow> price (points ! i) \<le> price (points ! j)"
    and "(\<forall>i j. i < j \<and> j < 151 \<longrightarrow> price (points ! i) < price (points ! j))
           \<longleftrightarrow> 150 \<le> pmax - pmin"
proof -
  define s where "s = (pmax - pmin) div 150"
  have pr: "price (points ! i) = pmin + int i * s" if "i < 151" for i
    using curve_prices(1) [OF ret that] step_sdiv [OF lt] by (simp add: s_def)
  note sf = step_facts_div [OF lt, folded s_def]
  show "price (points ! 0) = pmin"
    using pr [of 0] by simp
  have last: "price (points ! 150) = pmin + 150 * s"
    using pr [of 150] by simp
  show "price (points ! 150) \<le> pmax"
    using sf(2) by (simp only: last)
  show "pmax - price (points ! 150) < 150"
    using sf(3) by (simp only: last)
  show "price (points ! 150) = pmax \<longleftrightarrow> 150 dvd (pmax - pmin)"
    using sf(4) by (simp only: last)
  show "\<forall>i j. i \<le> j \<and> j < 151 \<longrightarrow> price (points ! i) \<le> price (points ! j)"
  proof (intro allI impI)
    fix i j :: nat assume h: "i \<le> j \<and> j < 151"
    then have "int i * s \<le> int j * s"
      using sf(1) by (intro mult_right_mono) simp_all
    moreover have "i < 151" "j < 151"
      using h by simp_all
    ultimately show "price (points ! i) \<le> price (points ! j)"
      by (simp only: pr add_le_cancel_left)
  qed
  show "(\<forall>i j. i < j \<and> j < 151 \<longrightarrow> price (points ! i) < price (points ! j))
               \<longleftrightarrow> 150 \<le> pmax - pmin"
  proof
    assume "\<forall>i j. i < j \<and> j < 151 \<longrightarrow> price (points ! i) < price (points ! j)"
    then have "price (points ! 0) < price (points ! 1)"
      by simp
    then have "0 < s"
      using pr [of 0] pr [of 1] by simp
    then show "150 \<le> pmax - pmin"
      using sf(5) by simp
  next
    assume "150 \<le> pmax - pmin"
    then have pos: "0 < s"
      using sf(5) by simp
    show "\<forall>i j. i < j \<and> j < 151 \<longrightarrow> price (points ! i) < price (points ! j)"
    proof (intro allI impI)
      fix i j :: nat assume h: "i < j \<and> j < 151"
      then have "int i * s < int j * s"
        using pos by (intro mult_strict_right_mono) simp_all
      moreover have "i < 151" "j < 151"
        using h by simp_all
      ultimately show "price (points ! i) < price (points ! j)"
        by (simp only: pr add_less_cancel_left)
    qed
  qed
qed

lemma mapE_returns_iff:
  "(\<exists>ys. mapE f xs = Inr ys) \<longleftrightarrow> (\<forall>x\<in>set xs. \<exists>y. f x = Inr y)"
  by (induction xs) (auto simp add: bindE_eq_Inr)

lemma pnlCurvePoint_returns_iff:
  "(\<exists>pt. pnlCurvePoint lib L tickL tickU cb b q d sp rng step b0 i = Inr pt) \<longleftrightarrow>
   (\<exists>tick sqrtP v.
       priceToTick lib (min_price rng + i * step) sp b q d = Inr tick
     \<and> getSqrtRatioAtTick lib tick = Inr sqrtP
     \<and> calculatePositionValue lib L sqrtP tickL tickU (min_price rng + i * step) b0 d = Inr v)"
proof -
  have "\<exists>pt. bindE (calculatePnL v cb) (\<lambda>r. Inr (k r)) = Inr pt" for v and k :: "PnLResult \<Rightarrow> PnLPoint"
    by (simp add: calculatePnL_value)
  then show ?thesis
    unfolding pnlCurvePoint_def Let_def
    by (cases "priceToTick lib (min_price rng + i * step) sp b q d") (auto simp add: bindE_eq_Inr)
qed

lemma curve_returns_iff:
  "(\<exists>points. generatePnLCurve lib L tickL tickU cb b q d sp \<lparr>min_price = pmin, max_price = pmax\<rparr> 150
      = Inr points) \<longleftrightarrow>
   (\<forall>i<151. \<exists>tick sqrtP v.
       priceToTick lib (pmin + int i * ((pmax - pmin) sdiv 150)) sp b q d = Inr tick
     \<and> getSqrtRatioAtTick lib tick = Inr sqrtP
     \<and> calculatePositionValue lib L sqrtP tickL tickU (pmin + int i * ((pmax - pmin) sdiv 150))
           (b < q) d = Inr v)"
  (is "?returns \<longleftrightarrow> ?each")
proof -
  define step where "step = (pmax - pmin) sdiv 150"
  define ok where "ok x \<longleftrightarrow> (\<exists>tick sqrtP v.
       priceToTick lib (pmin + x * step) sp b q d = Inr tick
     \<and> getSqrtRatioAtTick lib tick = Inr sqrtP
     \<and> calculatePositionValue lib L sqrtP tickL tickU (pmin + x * step) (b < q) d = Inr v)" for x
  have "?returns \<longleftrightarrow> (\<forall>x\<in>set [0..150]. ok x)"
    unfolding generatePnLCurve_150 mapE_returns_iff pnlCurvePoint_returns_iff ok_def step_def
    by simp
  also have "\<dots> \<longleftrightarrow> (\<forall>i<151. ok (int i))"
  proof
    assume h: "\<forall>x\<in>set [0..150]. ok x"
    show "\<forall>i<151. ok (int i)"
    proof (intro allI impI)
      fix i :: nat assume "i < 151"
      then have "int i \<in> set [0..150]"
        by simp
      with h show "ok (int i)"
        by blast
    qed
  next
    assume h: "\<forall>i<151. ok (int i)"
    show "\<forall>x\<in>set [0..150]. ok x"
    proof
      fix x :: int assume "x \<in> set [0..150]"
      then have x: "0 \<le> x" "x \<le> 150"
        by simp_all
      then have "nat x < 151" "int (nat x) = x"
        by linarith+
      with h show "ok x"
        by metis
    qed
  qed
  finally show ?thesis
    unfolding ok_def step_def .
qed

text \<open>The order of the ticks follows the order of the prices, or reverses it.\<close>

lemma priceToTick_Inr:
  "priceToTick lib pr sp b q d = Inr t \<longleftrightarrow>
     0 < pr \<and> (\<exists>s f. encodeSqrtRatioX96 lib (if b < q then pr else 10 ^ d)
                        (if b < q then 10 ^ d else pr) = Inr s
                 \<and> getTickAtSqrtRatio lib s = Inr f \<and> nearestUsableTick lib f sp = Inr t)"
proof (cases "0 < pr")
  case True
  then show ?thesis
    by (simp add: priceToTick_def priceToSqrtRatioX96_positive bindE_eq_Inr)
next
  case False
  then show ?thesis
    by (simp add: priceToTick_nonpositive)
qed

lemma priceToTick_mono_token0:
  assumes m: "sdk_monotone lib" and le: "p \<le> p'" and b: "b < q"
    and t: "priceToTick lib p sp b q d = Inr t" and t': "priceToTick lib p' sp b q d = Inr t'"
  shows "t \<le> t'"
proof -
  from t b obtain s f where s: "encodeSqrtRatioX96 lib p (10 ^ d) = Inr s"
    and f: "getTickAtSqrtRatio lib s = Inr f" and u: "nearestUsableTick lib f sp = Inr t"
    by (auto simp add: priceToTick_Inr)
  from t' b obtain s' f' where s': "encodeSqrtRatioX96 lib p' (10 ^ d) = Inr s'"
    and f': "getTickAtSqrtRatio lib s' = Inr f'" and u': "nearestUsableTick lib f' sp = Inr t'"
    by (auto simp add: priceToTick_Inr)
  have pos: "(0::int) < 10 ^ d"
    by simp
  from m pos le s s' have "s \<le> s'"
    unfolding sdk_monotone_def by blast
  with m f f' have "f \<le> f'"
    unfolding sdk_monotone_def by blast
  with m u u' show "t \<le> t'"
    unfolding sdk_monotone_def by blast
qed

lemma priceToTick_mono_token1:
  assumes m: "sdk_monotone lib" and le: "p \<le> p'" and b: "\<not> b < q"
    and t: "priceToTick lib p sp b q d = Inr t" and t': "priceToTick lib p' sp b q d = Inr t'"
  shows "t' \<le> t"
proof -
  from t b obtain s f where p: "0 < p" and s: "encodeSqrtRatioX96 lib (10 ^ d) p = Inr s"
    and f: "getTickAtSqrtRatio lib s = Inr f" and u: "nearestUsableTick lib f sp = Inr t"
    by (auto simp add: priceToTick_Inr)
  from t' b obtain s' f' where s': "encodeSqrtRatioX96 lib (10 ^ d) p' = Inr s'"
    and f': "getTickAtSqrtRatio lib s' = Inr f'" and u': "nearestUsableTick lib f' sp = Inr t'"
    by (auto simp add: priceToTick_Inr)
  have nonneg: "(0::int) \<le> 10 ^ d"
    by simp
  from m nonneg p le s s' have "s' \<le> s"
    unfolding sdk_monotone_def by blast
  with m f f' have "f' \<le> f"
    unfolding sdk_monotone_def by blast
  with m u u' show "t' \<le> t"
    unfolding sdk_monotone_def by blast
qed

lemma curve_phase_by_price:
  assumes ret: "generatePnLCurve lib L tickL tickU cb b q d sp \<lparr>min_price = pmin, max_price = pmax\<rparr> 150
             = Inr points"
    and m: "sdk_monotone lib"
    and ij: "i < 151" "j < 151"
    and le: "price (points ! i) \<le> price (points ! j)"
  shows "b < q \<Longrightarrow> phase_rank (phase (points ! i)) \<le> phase_rank (phase (points ! j))"
    and "\<not> b < q \<Longrightarrow> phase_rank (phase (points ! j)) \<le> phase_rank (phase (points ! i))"
proof -
  obtain ti where ti: "priceToTick lib (price (points ! i)) sp b q d = Inr ti"
    "phase (points ! i) = determinePhase ti tickL tickU"
    using curve_prices(2) [OF ret ij(1)] by blast
  obtain tj where tj: "priceToTick lib (price (points ! j)) sp b q d = Inr tj"
    "phase (points ! j) = determinePhase tj tickL tickU"
    using curve_prices(2) [OF ret ij(2)] by blast
  show "phase_rank (phase (points ! i)) \<le> phase_rank (phase (points ! j))" if "b < q"
    using priceToTick_mono_token0 [OF m le that ti(1) tj(1)]
    by (simp only: ti(2) tj(2) determinePhase_mono)
  show "phase_rank (phase (points ! j)) \<le> phase_rank (phase (points ! i))" if "\<not> b < q"
    using priceToTick_mono_token1 [OF m le that ti(1) tj(1)]
    by (simp only: ti(2) tj(2) determinePhase_mono)
qed

lemma curve_phase_by_index:
  assumes ret: "generatePnLCurve lib L tickL tickU cb b q d sp \<lparr>min_price = pmin, max_price = pmax\<rparr> 150
             = Inr points"
    and m: "sdk_monotone lib"
    and lt: "pmin < pmax"
    and ij: "i \<le> j" "j < 151"
  shows "b < q \<Longrightarrow> phase_rank (phase (points ! i)) \<le> phase_rank (phase (points ! j))"
    and "\<not> b < q \<Longrightarrow> phase_rank (phase (points ! j)) \<le> phase_rank (phase (points ! i))"
proof -
  have i: "i < 151"
    using ij by simp
  have le: "price (points ! i) \<le> price (points ! j)"
    using curve_price_range(5) [OF ret lt] ij by blast
  show "b < q \<Longrightarrow> phase_rank (phase (points ! i)) \<le> phase_rank (phase (points ! j))"
    by (rule curve_phase_by_price(1) [OF ret m i ij(2) le])
  show "\<not> b < q \<Longrightarrow> phase_rank (phase (points ! j)) \<le> phase_rank (phase (points ! i))"
    by (rule curve_phase_by_price(2) [OF ret m i ij(2) le])
qed

text \<open>The stand-in SDK: its order, and the curve over it.\<close>

lemma sdk_linear_monotone: "sdk_monotone sdk_linear"
proof -
  have enc1: "(a1 * k) div a0 \<le> (a1' * k) div a0"
    if "0 < a0" "a1 \<le> a1'" "0 \<le> k" for a0 a1 a1' k :: int
    using that by (intro zdiv_mono1 mult_right_mono) simp_all
  have enc0: "(a1 * k) div a0' \<le> (a1 * k) div a0"
    if "0 \<le> a1" "0 < a0" "a0 \<le> a0'" "0 \<le> k" for a0 a0' a1 k :: int
    using that by (intro zdiv_mono2) simp_all
  have tick: "s div k - 1 \<le> s' div k - 1" if "s \<le> s'" "0 < k" for s s' k :: int
    using that zdiv_mono1 [of s s' k] by simp
  have near: "(2 * t + sp) div (2 * sp) * sp \<le> (2 * t' + sp) div (2 * sp) * sp"
    if "t \<le> t'" "0 < sp" for t t' sp :: int
    using that by (intro mult_right_mono zdiv_mono1) simp_all
  show ?thesis
    unfolding sdk_monotone_def sdk_linear_def
    by (auto simp add: enc1 enc0 tick near split: if_splits)
qed

lemma priceToTick_linear_token0:
  assumes "0 < p"
  shows "priceToTick sdk_linear p 1 2 3 0 = Inr (p - 1)"
  using assms by (simp add: priceToTick_def priceToSqrtRatioX96_def sdk_linear_def)

lemma priceToTick_linear_token1:
  assumes "0 < p" "p \<le> 1000"
  shows "priceToTick sdk_linear p 1 3 2 3 = Inr (1000 div p - 1)"
proof -
  have "1000 * 2 ^ 96 div p div 2 ^ 96 = 1000 * 2 ^ 96 div (p * 2 ^ 96)"
    by (rule zdiv_zmult2_eq [symmetric]) simp
  also have "\<dots> = 1000 div p"
    by simp
  finally have q: "1000 * 2 ^ 96 div p div 2 ^ 96 = 1000 div p" .
  have "p * 2 ^ 96 \<le> 1000 * 2 ^ 96"
    using assms by simp
  then have "p * 2 ^ 96 div p \<le> 1000 * 2 ^ 96 div p"
    using assms by (intro zdiv_mono1) simp_all
  then have big: "2 ^ 96 \<le> 1000 * 2 ^ 96 div p"
    using assms by simp
  show ?thesis
    using assms big q
    by (simp add: priceToTick_def priceToSqrtRatioX96_def sdk_linear_def)
qed

lemma calculatePositionValue_linear_returns:
  assumes "0 \<le> L" "0 \<le> tickL" "tickL < tickU"
  shows "\<exists>v. calculatePositionValue sdk_linear L cur tickL tickU p b0 d = Inr v"
proof -
  define lo where "lo = (tickL + 1) * (2 ^ 96 :: int)"
  define up where "up = (tickU + 1) * (2 ^ 96 :: int)"
  have lo: "0 < lo" and up: "lo < up"
    using assms by (simp_all add: lo_def up_def)
  have sl: "getSqrtRatioAtTick sdk_linear tickL = Inr lo"
    and su: "getSqrtRatioAtTick sdk_linear tickU = Inr up"
    using assms by (simp_all add: sdk_linear_def lo_def up_def)
  obtain amounts where "getTokenAmountsFromLiquidity_X96 L cur lo up False = Inr amounts"
    using tokenAmounts_value [OF assms(1) lo up] by simp
  then have am: "getTokenAmountsFromLiquidity sdk_linear L cur tickL tickU False = Inr amounts"
    unfolding getTokenAmountsFromLiquidity_def sl su by simp
  show ?thesis
    unfolding calculatePositionValue_def am
    by (simp add: bigint_div_def)
qed

lemma linear_token0_point:
  assumes "0 < p"
  shows "\<exists>tick sqrtP v. priceToTick sdk_linear p 1 2 3 0 = Inr tick
     \<and> getSqrtRatioAtTick sdk_linear tick = Inr sqrtP
     \<and> calculatePositionValue sdk_linear (10 ^ 18) sqrtP 100 200 p True 0 = Inr v"
proof -
  have "getSqrtRatioAtTick sdk_linear (p - 1) = Inr (p * 2 ^ 96)"
    using assms by (simp add: sdk_linear_def)
  moreover obtain v where "calculatePositionValue sdk_linear (10 ^ 18) (p * 2 ^ 96) 100 200 p True 0 = Inr v"
    using calculatePositionValue_linear_returns [of "10 ^ 18" 100 200 "p * 2 ^ 96" p True 0] by auto
  ultimately show ?thesis
    using priceToTick_linear_token0 [OF assms] by blast
qed

lemma linear_token1_point:
  assumes "0 < p" "p \<le> 1000"
  shows "\<exists>tick sqrtP v. priceToTick sdk_linear p 1 3 2 3 = Inr tick
     \<and> getSqrtRatioAtTick sdk_linear tick = Inr sqrtP
     \<and> calculatePositionValue sdk_linear (10 ^ 18) sqrtP 10 50 p False 3 = Inr v"
proof -
  have "0 < 1000 div p"
    using assms by (simp add: pos_imp_zdiv_pos_iff)
  then have "1 \<le> 1000 div p"
    by simp
  then have "getSqrtRatioAtTick sdk_linear (1000 div p - 1) = Inr (1000 div p * 2 ^ 96)"
    by (simp add: sdk_linear_def)
  moreover obtain v where
    "calculatePositionValue sdk_linear (10 ^ 18) (1000 div p * 2 ^ 96) 10 50 p False 3 = Inr v"
    using calculatePositionValue_linear_returns [of "10 ^ 18" 10 50 "1000 div p * 2 ^ 96" p False 3]
    by auto
  ultimately show ?thesis
    using priceToTick_linear_token1 [OF assms] by blast
qed

lemma step_300: "(301 - 1) sdiv (150::int) = 2"
  by (simp add: signed_divide_int_def)

lemma phases_token0:
  "map (\<lambda>i. determinePhase (1 + 2 * int i - 1) 100 200) [0..<151]
     = replicate 50 Phase_below @ replicate 50 Phase_in_range @ replicate 51 Phase_above"
  by code_simp

lemma phases_token1:
  "map (\<lambda>i. determinePhase (1000 div (1 + 2 * int i) - 1) 10 50) [0..<151]
     = replicate 10 Phase_above @ replicate 35 Phase_in_range @ replicate 106 Phase_below"
  by code_simp

lemma double_of_minus_100_percent: "number_div_100 (Number (- 10000)) = Finite (- 100)"
proof -
  have "round_double (- 10000 / 100) = Finite (- 100)"
    by (subst round_double_normal [of 6]) (simp_all add: round_half_even_def)
  then show ?thesis
    by (simp add: number_div_100_def Number_exact)
qed

lemma double_of_minus_9995:
  "number_div_100 (Number (- 9995)) = Finite (- 7033355980557517 / 70368744177664)"
proof -
  have "round_double (- 9995 / 100) = Finite (- 7033355980557517 / 70368744177664)"
    by (subst round_double_normal [of 6]) (simp_all add: round_half_even_def)
  then show ?thesis
    by (simp add: number_div_100_def Number_exact)
qed

lemma double_of_90000: "number_div_100 (Number 90000) = Finite 900"
proof -
  have "round_double (90000 / 100) = Finite 900"
    by (subst round_double_normal [of 9]) (simp_all add: round_half_even_def)
  then show ?thesis
    by (simp add: number_div_100_def Number_exact)
qed

lemma point_at_ratio_one:
  "pnlCurvePoint sdk_at_ratio_one 0 (- 60) 60 1000 1 2 0 60 \<lparr>min_price = 1, max_price = 100\<rparr> 0 True i
     = Inr \<lparr>pnl = - 1000, pnlPercent = Finite (- 100), price = 1, positionValue = 0,
            phase = Phase_in_range\<rparr>"
  by (simp add: pnlCurvePoint_def priceToTick_def priceToSqrtRatioX96_def sdk_at_ratio_one_def
      calculatePositionValue_def calculatePnL_value determinePhase_def signed_divide_int_def
      double_of_minus_100_percent)

lemma curve_at_ratio_one:
  "generatePnLCurve sdk_at_ratio_one 0 (- 60) 60 1000 1 2 0 60 \<lparr>min_price = 1, max_price = 100\<rparr> 150
     = Inr (replicate 151
         \<lparr>pnl = - 1000, pnlPercent = Finite (- 100), price = 1, positionValue = 0,
          phase = Phase_in_range\<rparr>)"
proof -
  have step: "(100 - 1) sdiv (150::int) = 0"
    by (simp add: signed_divide_int_def)
  have "mapE (pnlCurvePoint sdk_at_ratio_one 0 (- 60) 60 1000 1 2 0 60
                \<lparr>min_price = 1, max_price = 100\<rparr> 0 True) [0..150]
        = Inr (replicate (length [0..(150::int)])
            \<lparr>pnl = - 1000, pnlPercent = Finite (- 100), price = 1, positionValue = 0,
             phase = Phase_in_range\<rparr>)"
    by (rule mapE_constant) (rule ballI, rule point_at_ratio_one)
  then show ?thesis
    unfolding generatePnLCurve_150 by (simp add: step)
qed

text \<open>
  The curve of a position of liquidity \<open>10^18\<close> between the ticks 100 and 200 over the
  stand-in SDK, base token first, prices from 1 to 301.
\<close>

lemma linear_token0_first:
  "pnlCurvePoint sdk_linear (10 ^ 18) 100 200 (10 ^ 19) 2 3 0 1 \<lparr>min_price = 1, max_price = 301\<rparr>
       2 True 0
     = Inr \<lparr>pnl = - 9995074134279099552, pnlPercent = Finite (- 7033355980557517 / 70368744177664),
            price = 1, positionValue = 4925865720900448, phase = Phase_below\<rparr>"
  by (simp add: pnlCurvePoint_def priceToTick_def priceToSqrtRatioX96_def sdk_linear_def
      calculatePositionValue_def getTokenAmountsFromLiquidity_def
      getTokenAmountsFromLiquidity_X96_def getAmount0FromLiquidity_def getAmount1FromLiquidity_def
      mulDiv_def bigint_div_def Q96_def calculatePnL_value determinePhase_def
      signed_divide_int_def double_of_minus_9995)

lemma linear_token0_last:
  "pnlCurvePoint sdk_linear (10 ^ 18) 100 200 (10 ^ 19) 2 3 0 1 \<lparr>min_price = 1, max_price = 301\<rparr>
       2 True 150
     = Inr \<lparr>pnl = 90000000000000000000, pnlPercent = Finite 900,
            price = 301, positionValue = 100000000000000000000, phase = Phase_above\<rparr>"
  by (simp add: pnlCurvePoint_def priceToTick_def priceToSqrtRatioX96_def sdk_linear_def
      calculatePositionValue_def getTokenAmountsFromLiquidity_def
      getTokenAmountsFromLiquidity_X96_def getAmount0FromLiquidity_def getAmount1FromLiquidity_def
      mulDiv_def bigint_div_def Q96_def calculatePnL_value determinePhase_def
      signed_divide_int_def double_of_90000)

lemma curve_linear_token0:
  "\<exists>points.
     generatePnLCurve sdk_linear (10 ^ 18) 100 200 (10 ^ 19) 2 3 0 1
         \<lparr>min_price = 1, max_price = 301\<rparr> 150 = Inr points
   \<and> length points = 151
   \<and> map price points = map (\<lambda>i. 1 + 2 * int i) [0..<151]
   \<and> map phase points
       = replicate 50 Phase_below @ replicate 50 Phase_in_range @ replicate 51 Phase_above
   \<and> hd points
       = \<lparr>pnl = - 9995074134279099552, pnlPercent = Finite (- 7033355980557517 / 70368744177664),
          price = 1, positionValue = 4925865720900448, phase = Phase_below\<rparr>
   \<and> last points
       = \<lparr>pnl = 90000000000000000000, pnlPercent = Finite 900,
          price = 301, positionValue = 100000000000000000000, phase = Phase_above\<rparr>"
proof -
  have "\<forall>i<151. \<exists>tick sqrtP v.
       priceToTick sdk_linear (1 + int i * ((301 - 1) sdiv 150)) 1 2 3 0 = Inr tick
     \<and> getSqrtRatioAtTick sdk_linear tick = Inr sqrtP
     \<and> calculatePositionValue sdk_linear (10 ^ 18) sqrtP 100 200
           (1 + int i * ((301 - 1) sdiv 150)) (2 < (3::nat)) 0 = Inr v"
  proof (intro allI impI)
    fix i :: nat
    have "0 < 1 + int i * 2"
      by simp
    from linear_token0_point [OF this]
    show "\<exists>tick sqrtP v.
       priceToTick sdk_linear (1 + int i * ((301 - 1) sdiv 150)) 1 2 3 0 = Inr tick
     \<and> getSqrtRatioAtTick sdk_linear tick = Inr sqrtP
     \<and> calculatePositionValue sdk_linear (10 ^ 18) sqrtP 100 200
           (1 + int i * ((301 - 1) sdiv 150)) (2 < (3::nat)) 0 = Inr v"
      unfolding step_300 by simp
  qed
  then have "\<exists>points. generatePnLCurve sdk_linear (10 ^ 18) 100 200 (10 ^ 19) 2 3 0 1
         \<lparr>min_price = 1, max_price = 301\<rparr> 150 = Inr points"
    by (rule curve_returns_iff [THEN iffD2])
  then obtain points where ret:
    "generatePnLCurve sdk_linear (10 ^ 18) 100 200 (10 ^ 19) 2 3 0 1
         \<lparr>min_price = 1, max_price = 301\<rparr> 150 = Inr points"
    by blast
  have len: "length points = 151"
    by (rule curve_points(1) [OF ret])
  have pr: "price (points ! i) = 1 + 2 * int i" if "i < 151" for i
    using curve_prices(1) [OF ret that] by (simp add: step_300)
  have ph: "phase (points ! i) = determinePhase (1 + 2 * int i - 1) 100 200" if i: "i < 151" for i
  proof -
    obtain tick where "priceToTick sdk_linear (price (points ! i)) 1 2 3 0 = Inr tick"
      and p: "phase (points ! i) = determinePhase tick 100 200"
      using curve_prices(2) [OF ret i] by blast
    then have "tick = 1 + 2 * int i - 1"
      using priceToTick_linear_token0 [of "1 + 2 * int i"] by (simp add: pr [OF i])
    with p show ?thesis
      by simp
  qed
  have prices: "map price points = map (\<lambda>i. 1 + 2 * int i) [0..<151]"
    by (rule nth_equalityI) (simp_all add: len pr)
  have "map phase points = map (\<lambda>i. determinePhase (1 + 2 * int i - 1) 100 200) [0..<151]"
    by (rule nth_equalityI) (simp_all add: len ph)
  then have phases: "map phase points
       = replicate 50 Phase_below @ replicate 50 Phase_in_range @ replicate 51 Phase_above"
    by (simp only: phases_token0)
  have pts: "pnlCurvePoint sdk_linear (10 ^ 18) 100 200 (10 ^ 19) 2 3 0 1
      \<lparr>min_price = 1, max_price = 301\<rparr> 2 True (int i) = Inr (points ! i)" if "i < 151" for i
    using curve_points(2) [OF ret] that by (simp add: step_300)
  have "points \<noteq> []"
    using len by auto
  then have "hd points = points ! 0" "last points = points ! 150"
    using len by (simp_all add: hd_conv_nth last_conv_nth)
  then have ends: "hd points
       = \<lparr>pnl = - 9995074134279099552, pnlPercent = Finite (- 7033355980557517 / 70368744177664),
          price = 1, positionValue = 4925865720900448, phase = Phase_below\<rparr>"
    "last points
       = \<lparr>pnl = 90000000000000000000, pnlPercent = Finite 900,
          price = 301, positionValue = 100000000000000000000, phase = Phase_above\<rparr>"
    using pts [of 0] pts [of 150] linear_token0_first linear_token0_last by simp_all
  from ret len prices phases ends show ?thesis
    by blast
qed

text \<open>
  The same over the stand-in SDK with the base token second, three decimals and the
  ticks 10 and 50: the encoder receives \<open>1000 / price\<close>, and the tick falls as the price
  rises.
\<close>

lemma curve_linear_token1:
  "\<exists>points.
     generatePnLCurve sdk_linear (10 ^ 18) 10 50 (10 ^ 19) 3 2 3 1
         \<lparr>min_price = 1, max_price = 301\<rparr> 150 = Inr points
   \<and> length points = 151
   \<and> map price points = map (\<lambda>i. 1 + 2 * int i) [0..<151]
   \<and> map phase points
       = replicate 10 Phase_above @ replicate 35 Phase_in_range @ replicate 106 Phase_below"
proof -
  have range: "0 < 1 + 2 * int i" "1 + 2 * int i \<le> 1000" if "i < 151" for i
    using that by simp_all
  have "\<forall>i<151. \<exists>tick sqrtP v.
       priceToTick sdk_linear (1 + int i * ((301 - 1) sdiv 150)) 1 3 2 3 = Inr tick
     \<and> getSqrtRatioAtTick sdk_linear tick = Inr sqrtP
     \<and> calculatePositionValue sdk_linear (10 ^ 18) sqrtP 10 50
           (1 + int i * ((301 - 1) sdiv 150)) (3 < (2::nat)) 3 = Inr v"
  proof (intro allI impI)
    fix i :: nat assume "i < 151"
    from linear_token1_point [OF range [OF this]]
    show "\<exists>tick sqrtP v.
       priceToTick sdk_linear (1 + int i * ((301 - 1) sdiv 150)) 1 3 2 3 = Inr tick
     \<and> getSqrtRatioAtTick sdk_linear tick = Inr sqrtP
     \<and> calculatePositionValue sdk_linear (10 ^ 18) sqrtP 10 50
           (1 + int i * ((301 - 1) sdiv 150)) (3 < (2::nat)) 3 = Inr v"
      unfolding step_300 by (simp add: mult.commute)
  qed
  then have "\<exists>points. generatePnLCurve sdk_linear (10 ^ 18) 10 50 (10 ^ 19) 3 2 3 1
         \<lparr>min_price = 1, max_price = 301\<rparr> 150 = Inr points"
    by (rule curve_returns_iff [THEN iffD2])
  then obtain points where ret:
    "generatePnLCurve sdk_linear (10 ^ 18) 10 50 (10 ^ 19) 3 2 3 1
         \<lparr>min_price = 1, max_price = 301\<rparr> 150 = Inr points"
    by blast
  have len: "length points = 151"
    by (rule curve_points(1) [OF ret])
  have pr: "price (points ! i) = 1 + 2 * int i" if "i < 151" for i
    using curve_prices(1) [OF ret that] by (simp add: step_300)
  have ph: "phase (points ! i) = determinePhase (1000 div (1 + 2 * int i) - 1) 10 50"
    if i: "i < 151" for i
  proof -
    obtain tick where "priceToTick sdk_linear (price (points ! i)) 1 3 2 3 = Inr tick"
      and p: "phase (points ! i) = determinePhase tick 10 50"
      using curve_prices(2) [OF ret i] by blast
    then have "tick = 1000 div (1 + 2 * int i) - 1"
      using priceToTick_linear_token1 [OF range [OF i]] by (simp add: pr [OF i])
    with p show ?thesis
      by simp
  qed
  have prices: "map price points = map (\<lambda>i. 1 + 2 * int i) [0..<151]"
    by (rule nth_equalityI) (simp_all add: len pr)
  have "map phase points = map (\<lambda>i. determinePhase (1000 div (1 + 2 * int i) - 1) 10 50) [0..<151]"
    by (rule nth_equalityI) (simp_all add: len ph)
  then have phases: "map phase points
       = replicate 10 Phase_above @ replicate 35 Phase_in_range @ replicate 106 Phase_below"
    by (simp only: phases_token1)
  from ret len prices phases show ?thesis
    by blast
qed

lemma prices_increase: "sorted_wrt (<) (map (\<lambda>i. 1 + 2 * int i) [0..<151])"
  by (simp add: sorted_wrt_map sorted_wrt_iff_nth_less)

lemma prices_ends:
  "hd (map (\<lambda>i. 1 + 2 * int i) [0..<151]) = 1" "last (map (\<lambda>i. 1 + 2 * int i) [0..<151]) = 301"
  by (simp_all add: hd_map last_map upt_conv_Cons)

text \<open>
  C6 as stated fails, in three ways. The price step is the integer quotient of the width
  of the range by 150, so for the range from 1 to 100 the step is 0: all 151 points have
  price 1, the prices do not reach the upper end of the range and do not increase. For
  a range that starts at a price that is not positive no point is returned: the first
  sample is rejected. And when the base token is the second token of the pool, the
  price module hands the encoder \<open>10^decimals / price\<close>, so the tick falls as the price
  rises: over the stand-in SDK the prices 1, 3, \<dots>, 301 increase strictly and the phases
  run above, in-range, below.
\<close>

theorem generatePnLCurve_not_as_stated:
  "generatePnLCurve sdk_at_ratio_one 0 (- 60) 60 1000 1 2 0 60 \<lparr>min_price = 1, max_price = 100\<rparr> 150
     = Inr (replicate 151
         \<lparr>pnl = - 1000, pnlPercent = Finite (- 100), price = 1, positionValue = 0,
          phase = Phase_in_range\<rparr>)
   \<and> (1::int) < 100
   \<and> generatePnLCurve sdk_at_ratio_one 0 (- 60) 60 1000 1 2 0 60 \<lparr>min_price = 0, max_price = 150\<rparr> 150
     = Inl (Error ''price must be a positive bigint'')
   \<and> map_sum id (map phase)
        (generatePnLCurve sdk_linear (10 ^ 18) 10 50 (10 ^ 19) 3 2 3 1
           \<lparr>min_price = 1, max_price = 301\<rparr> 150)
     = Inr (replicate 10 Phase_above @ replicate 35 Phase_in_range @ replicate 106 Phase_below)
   \<and> map_sum id (sorted_wrt (<) \<circ> map price)
        (generatePnLCurve sdk_linear (10 ^ 18) 10 50 (10 ^ 19) 3 2 3 1
           \<lparr>min_price = 1, max_price = 301\<rparr> 150)
     = Inr True
   \<and> map_sum id (price \<circ> hd)
        (generatePnLCurve sdk_linear (10 ^ 18) 10 50 (10 ^ 19) 3 2 3 1
           \<lparr>min_price = 1, max_price = 301\<rparr> 150)
     = Inr 1
   \<and> map_sum id (price \<circ> last)
        (generatePnLCurve sdk_linear (10 ^ 18) 10 50 (10 ^ 19) 3 2 3 1
           \<lparr>min_price = 1, max_price = 301\<rparr> 150)
     = Inr 301"
proof -
  obtain points where ret:
    "generatePnLCurve sdk_linear (10 ^ 18) 10 50 (10 ^ 19) 3 2 3 1
         \<lparr>min_price = 1, max_price = 301\<rparr> 150 = Inr points"
    and len: "length points = 151"
    and prices: "map price points = map (\<lambda>i. 1 + 2 * int i) [0..<151]"
    and phases: "map phase points
       = replicate 10 Phase_above @ replicate 35 Phase_in_range @ replicate 106 Phase_below"
    using curve_linear_token1 by blast
  have ne: "points \<noteq> []"
    using len by auto
  have "price (hd points) = hd (map price points)" "price (last points) = last (map price points)"
    using ne by (simp_all add: hd_map last_map)
  then have ends: "price (hd points) = 1" "price (last points) = 301"
    unfolding prices prices_ends by simp_all
  have incr: "sorted_wrt (<) (map price points)"
    unfolding prices by (rule prices_increase)
  have raise: "generatePnLCurve sdk_at_ratio_one 0 (- 60) 60 1000 1 2 0 60
      \<lparr>min_price = 0, max_price = 150\<rparr> 150 = Inl (Error ''price must be a positive bigint'')"
    by (rule generatePnLCurve_nonpositive_min) simp
  show ?thesis
    unfolding ret using curve_at_ratio_one raise phases incr ends by simp
qed

text \<open>
  C6, amended. With \<open>numPoints = 150\<close>, \<^verbatim>\<open>generatePnLCurve\<close> raises the price precondition
  error when the lower end of the range is not positive. It returns exactly when, at each
  of the 151 sampled prices \<open>min + i * step\<close>, with \<open>step\<close> the integer quotient of
  \<open>max - min\<close> by 150, the SDK's calls of \<^verbatim>\<open>priceToTick\<close> and \<^verbatim>\<open>getSqrtRatioAtTick\<close> and
  \<^verbatim>\<open>calculatePositionValue\<close> return. Whenever it returns, it returns exactly 151 points and
  the lower end is positive; point \<open>i\<close> has the price \<open>min + i * step\<close>, and its phase
  is \<^verbatim>\<open>determinePhase\<close> of the tick that \<^verbatim>\<open>priceToTick\<close> gives for its price. Over an SDK
  that keeps the order of its arguments, the phases follow the prices: of two points the
  one with the higher price is not in an earlier phase of the order below, in-range,
  above when the base token is token0, and not in a later phase when the base token is
  token1. For \<open>min < max\<close> the step is the floor of \<open>(max - min) / 150\<close>, the prices
  start at \<open>min\<close>, do not decrease, end at most at \<open>max\<close> and less than 150 under it,
  end at \<open>max\<close> exactly when 150 divides \<open>max - min\<close>, and increase strictly exactly
  when \<open>max - min \<ge> 150\<close>; along the curve the phases then run below, in-range,
  above for base token0 and above, in-range, below for base token1, each change at most
  once.
\<close>

theorem generatePnLCurve_points:
  "(pmin \<le> 0 \<longrightarrow>
      generatePnLCurve lib L tickL tickU cb b q d sp \<lparr>min_price = pmin, max_price = pmax\<rparr> 150
        = Inl (Error ''price must be a positive bigint''))
   \<and> ((\<exists>ps. generatePnLCurve lib L tickL tickU cb b q d sp \<lparr>min_price = pmin, max_price = pmax\<rparr> 150
            = Inr ps) \<longleftrightarrow>
       (\<forall>i<151. \<exists>tick sqrtP v.
           priceToTick lib (pmin + int i * ((pmax - pmin) sdiv 150)) sp b q d = Inr tick
         \<and> getSqrtRatioAtTick lib tick = Inr sqrtP
         \<and> calculatePositionValue lib L sqrtP tickL tickU
               (pmin + int i * ((pmax - pmin) sdiv 150)) (b < q) d = Inr v))
   \<and> (generatePnLCurve lib L tickL tickU cb b q d sp \<lparr>min_price = pmin, max_price = pmax\<rparr> 150
        = Inr points \<longrightarrow>
        length points = 151 \<and> 0 < pmin
      \<and> (\<forall>i<151. price (points ! i) = pmin + int i * ((pmax - pmin) sdiv 150))
      \<and> (\<forall>i<151. \<exists>tick. priceToTick lib (price (points ! i)) sp b q d = Inr tick
             \<and> phase (points ! i) = determinePhase tick tickL tickU)
      \<and> (sdk_monotone lib \<longrightarrow>
            (\<forall>i j. i < 151 \<and> j < 151 \<and> price (points ! i) \<le> price (points ! j) \<longrightarrow>
               (b < q \<longrightarrow> phase_rank (phase (points ! i)) \<le> phase_rank (phase (points ! j)))
             \<and> (\<not> b < q \<longrightarrow> phase_rank (phase (points ! j)) \<le> phase_rank (phase (points ! i)))))
      \<and> (pmin < pmax \<longrightarrow>
            (pmax - pmin) sdiv 150 = (pmax - pmin) div 150
          \<and> price (points ! 0) = pmin
          \<and> price (points ! 150) \<le> pmax \<and> pmax - price (points ! 150) < 150
          \<and> (price (points ! 150) = pmax \<longleftrightarrow> 150 dvd (pmax - pmin))
          \<and> (\<forall>i j. i \<le> j \<and> j < 151 \<longrightarrow> price (points ! i) \<le> price (points ! j))
          \<and> ((\<forall>i j. i < j \<and> j < 151 \<longrightarrow> price (points ! i) < price (points ! j))
               \<longleftrightarrow> 150 \<le> pmax - pmin)
          \<and> (sdk_monotone lib \<longrightarrow>
                (\<forall>i j. i \<le> j \<and> j < 151 \<longrightarrow>
                   (b < q \<longrightarrow> phase_rank (phase (points ! i)) \<le> phase_rank (phase (points ! j)))
                 \<and> (\<not> b < q \<longrightarrow>
                       phase_rank (phase (points ! j)) \<le> phase_rank (phase (points ! i)))))))"
  (is "?raises \<and> ?total \<and> (?returns \<longrightarrow> ?len \<and> ?pos \<and> ?prices \<and> ?ticks \<and> ?byprice
        \<and> (?lt \<longrightarrow> ?step \<and> ?first \<and> ?last1 \<and> ?last2 \<and> ?last3 \<and> ?incr \<and> ?strict \<and> ?byindex))")
proof (intro conjI)
  show ?raises
    by (simp add: generatePnLCurve_nonpositive_min)
next
  show ?total
    by (rule curve_returns_iff)
next
  show "?returns \<longrightarrow> ?len \<and> ?pos \<and> ?prices \<and> ?ticks \<and> ?byprice
        \<and> (?lt \<longrightarrow> ?step \<and> ?first \<and> ?last1 \<and> ?last2 \<and> ?last3 \<and> ?incr \<and> ?strict \<and> ?byindex)"
  proof
    assume ret: ?returns
    have byprice: ?byprice
    proof (intro impI allI conjI)
      fix i j :: nat
      assume m: "sdk_monotone lib"
        and h: "i < 151 \<and> j < 151 \<and> price (points ! i) \<le> price (points ! j)"
      then have ij: "i < 151" "j < 151" and le: "price (points ! i) \<le> price (points ! j)"
        by simp_all
      show "phase_rank (phase (points ! i)) \<le> phase_rank (phase (points ! j))" if "b < q"
        using that by (rule curve_phase_by_price(1) [OF ret m ij le])
      show "phase_rank (phase (points ! j)) \<le> phase_rank (phase (points ! i))" if "\<not> b < q"
        using that by (rule curve_phase_by_price(2) [OF ret m ij le])
    qed
    have span: "?lt \<longrightarrow> ?step \<and> ?first \<and> ?last1 \<and> ?last2 \<and> ?last3 \<and> ?incr \<and> ?strict \<and> ?byindex"
    proof
      assume lt: ?lt
      have byindex: ?byindex
      proof (intro impI allI conjI)
        fix i j :: nat
        assume m: "sdk_monotone lib" and h: "i \<le> j \<and> j < 151"
        then have ij: "i \<le> j" "j < 151"
          by simp_all
        show "phase_rank (phase (points ! i)) \<le> phase_rank (phase (points ! j))" if "b < q"
          using that by (rule curve_phase_by_index(1) [OF ret m lt ij])
        show "phase_rank (phase (points ! j)) \<le> phase_rank (phase (points ! i))" if "\<not> b < q"
          using that by (rule curve_phase_by_index(2) [OF ret m lt ij])
      qed
      show "?step \<and> ?first \<and> ?last1 \<and> ?last2 \<and> ?last3 \<and> ?incr \<and> ?strict \<and> ?byindex"
        by (intro conjI step_sdiv [OF lt] curve_price_range [OF ret lt] byindex)
    qed
    show "?len \<and> ?pos \<and> ?prices \<and> ?ticks \<and> ?byprice
        \<and> (?lt \<longrightarrow> ?step \<and> ?first \<and> ?last1 \<and> ?last2 \<and> ?last3 \<and> ?incr \<and> ?strict \<and> ?byindex)"
      using curve_points(1) [OF ret] curve_min_positive [OF ret] curve_prices [OF ret] byprice span
      by (intro conjI) (assumption | simp)+
  qed
qed

theorem generatePnLCurve_points_witness:
  "sdk_monotone sdk_linear \<and> (1::int) < 301 \<and> (2::nat) < 3 \<and> 150 dvd (301 - 1 :: int)
   \<and> map_sum id length
        (generatePnLCurve sdk_linear (10 ^ 18) 100 200 (10 ^ 19) 2 3 0 1
           \<lparr>min_price = 1, max_price = 301\<rparr> 150)
     = Inr 151
   \<and> map_sum id (map phase)
        (generatePnLCurve sdk_linear (10 ^ 18) 100 200 (10 ^ 19) 2 3 0 1
           \<lparr>min_price = 1, max_price = 301\<rparr> 150)
     = Inr (replicate 50 Phase_below @ replicate 50 Phase_in_range @ replicate 51 Phase_above)
   \<and> map_sum id (sorted_wrt (<) \<circ> map price)
        (generatePnLCurve sdk_linear (10 ^ 18) 100 200 (10 ^ 19) 2 3 0 1
           \<lparr>min_price = 1, max_price = 301\<rparr> 150)
     = Inr True
   \<and> map_sum id hd
        (generatePnLCurve sdk_linear (10 ^ 18) 100 200 (10 ^ 19) 2 3 0 1
           \<lparr>min_price = 1, max_price = 301\<rparr> 150)
     = Inr \<lparr>pnl = - 9995074134279099552, pnlPercent = Finite (- 7033355980557517 / 70368744177664),
            price = 1, positionValue = 4925865720900448, phase = Phase_below\<rparr>
   \<and> map_sum id last
        (generatePnLCurve sdk_linear (10 ^ 18) 100 200 (10 ^ 19) 2 3 0 1
           \<lparr>min_price = 1, max_price = 301\<rparr> 150)
     = Inr \<lparr>pnl = 90000000000000000000, pnlPercent = Finite 900,
            price = 301, positionValue = 100000000000000000000, phase = Phase_above\<rparr>
   \<and> \<not> (3::nat) < 2
   \<and> map_sum id (map phase)
        (generatePnLCurve sdk_linear (10 ^ 18) 10 50 (10 ^ 19) 3 2 3 1
           \<lparr>min_price = 1, max_price = 301\<rparr> 150)
     = Inr (replicate 10 Phase_above @ replicate 35 Phase_in_range @ replicate 106 Phase_below)
   \<and> generatePnLCurve sdk_linear (10 ^ 18) 100 200 (10 ^ 19) 2 3 0 1
        \<lparr>min_price = 0, max_price = 300\<rparr> 150
     = Inl (Error ''price must be a positive bigint'')"
proof -
  obtain points where ret:
    "generatePnLCurve sdk_linear (10 ^ 18) 100 200 (10 ^ 19) 2 3 0 1
         \<lparr>min_price = 1, max_price = 301\<rparr> 150 = Inr points"
    and prices: "map price points = map (\<lambda>i. 1 + 2 * int i) [0..<151]"
    and phases: "map phase points
       = replicate 50 Phase_below @ replicate 50 Phase_in_range @ replicate 51 Phase_above"
    and ends: "hd points
       = \<lparr>pnl = - 9995074134279099552, pnlPercent = Finite (- 7033355980557517 / 70368744177664),
          price = 1, positionValue = 4925865720900448, phase = Phase_below\<rparr>"
      "last points
       = \<lparr>pnl = 90000000000000000000, pnlPercent = Finite 900,
          price = 301, positionValue = 100000000000000000000, phase = Phase_above\<rparr>"
    using curve_linear_token0 by blast
  obtain points' where ret':
    "generatePnLCurve sdk_linear (10 ^ 18) 10 50 (10 ^ 19) 3 2 3 1
         \<lparr>min_price = 1, max_price = 301\<rparr> 150 = Inr points'"
    and phases': "map phase points'
       = replicate 10 Phase_above @ replicate 35 Phase_in_range @ replicate 106 Phase_below"
    using curve_linear_token1 by blast
  note run = generatePnLCurve_points [where lib = sdk_linear and L = "10 ^ 18" and tickL = 100
      and tickU = 200 and cb = "10 ^ 19" and b = 2 and q = 3 and d = 0 and sp = 1 and pmin = 1
      and pmax = 301 and points = points]
  from run ret have len: "length points = 151"
    by blast
  from run ret have "150 dvd (301 - 1 :: int) \<longleftrightarrow> price (points ! 150) = 301"
    by simp
  have incr: "sorted_wrt (<) (map price points)"
    unfolding prices by (rule prices_increase)
  have raise: "generatePnLCurve sdk_linear (10 ^ 18) 100 200 (10 ^ 19) 2 3 0 1
        \<lparr>min_price = 0, max_price = 300\<rparr> 150 = Inl (Error ''price must be a positive bigint'')"
    using generatePnLCurve_points [where lib = sdk_linear and L = "10 ^ 18" and tickL = 100
      and tickU = 200 and cb = "10 ^ 19" and b = 2 and q = 3 and d = 0 and sp = 1 and pmin = 0
      and pmax = 300]
    by simp
  show ?thesis
    unfolding ret ret' using sdk_linear_monotone len phases incr ends phases' raise by simp
qed

end
